theory Spec2Isabelle
  imports Main "HOL-Library.Word"
begin

unbundle bit_operations_syntax

section \<open>The network-interface registry of sys/net/if.c\<close>

text \<open>
  The theory embeds the parts of \<^verbatim>\<open>sys/net/if.c\<close> that create, index, look up, rename
  and destroy interface objects, and the reference-counted memberships hanging off them.
  Source functions keep their names. Locks are not modelled: every function is a
  sequential state transformer, run with the locks the source takes. A kernel panic and an
  access outside an allocated object are values of the type \<open>error\<close>; a loop that the
  source can run forever is a partial function into \<open>option\<close>, where \<open>None\<close> is
  "never returns".
\<close>

subsection \<open>Error codes\<close>

text \<open>The numeric values are those of \<^verbatim>\<open>sys/errno.h\<close>; 0 is success.\<close>

definition ENOENT :: int where "ENOENT = 2"
definition ENOMEM :: int where "ENOMEM = 12"
definition EEXIST :: int where "EEXIST = 17"
definition EINVAL :: int where "EINVAL = 22"
definition EOPNOTSUPP :: int where "EOPNOTSUPP = 45"

datatype error = Panic | Fault

subsection \<open>Capability sets: \<^verbatim>\<open>struct ifops\<close>, \<^verbatim>\<open>struct ifdriver\<close>, blessing\<close>

text \<open>
  A function pointer is \<open>NULLfn\<close>, one of the two generic implementations that if.c
  installs itself, or the address of code supplied by a driver or an interface type.
\<close>

datatype fnptr = NULLfn | if_get_counter_default | if_snd_qflush | Code nat

record ifops =
  ifop_input :: fnptr
  ifop_transmit :: fnptr
  ifop_output :: fnptr
  ifop_poll :: fnptr
  ifop_ioctl :: fnptr
  ifop_get_counter :: fnptr
  ifop_qflush :: fnptr
  ifop_media_change :: fnptr
  ifop_media_status :: fnptr
  ifop_resolvemulti :: fnptr
  ifop_reassign :: fnptr
  ifop_vlan_event :: fnptr
  ifop_origin :: "8 word"

definition IFOP_ORIGIN_DRIVER :: "8 word" where "IFOP_ORIGIN_DRIVER = 1"

record iftsomax =
  tsomax_bytes :: "32 word"
  tsomax_segcount :: "32 word"
  tsomax_segsize :: "32 word"

text \<open>
  \<^verbatim>\<open>default_tsomax\<close>: \<^verbatim>\<open>MIN(IP_MAXPACKET, 32 * MCLBYTES - (ETHER_HDR_LEN + ETHER_VLAN_ENCAP_LEN))\<close>
  with the values 65535, 2048, 14 and 4 of the headers.
\<close>

definition default_tsomax :: iftsomax where
  "default_tsomax =
     \<lparr>tsomax_bytes = min 65535 (32 * 2048 - (14 + 4)), tsomax_segcount = 35,
      tsomax_segsize = 2048\<rparr>"

record ifdriver =
  ifdrv_ops :: ifops
  ifdrv_tsomax :: "iftsomax option"
  ifdrv_name :: string
  ifdrv_clone :: bool
  ifdrv_type :: nat
  ifdrv_hdrlen :: "8 word"
  ifdrv_addrlen :: "8 word"
  ifdrv_dlt :: "32 word"
  ifdrv_dlt_hdrlen :: "32 word"
  ifdrv_maxqlen :: "32 word"
  ifdrv_flags :: "32 word"

text \<open>
  \<^verbatim>\<open>struct iftype\<close> is declared in a header that is not among the sources; the fields
  are those that \<^verbatim>\<open>ifdriver_bless\<close> and \<^verbatim>\<open>iftype_find\<close> read.
\<close>

record iftype =
  ift_type :: nat
  ift_ops :: ifops
  ift_hdrlen :: "8 word"
  ift_addrlen :: "8 word"
  ift_dlt :: "32 word"
  ift_dlt_hdrlen :: "32 word"

definition IFDRV_BLESSED :: "32 word" where "IFDRV_BLESSED = 0x00000001"

text \<open>\<^verbatim>\<open>iftype_find\<close>: the first registered type with the wanted type number, or NULL.\<close>

definition iftype_find :: "iftype list \<Rightarrow> nat \<Rightarrow> iftype option" where
  "iftype_find iftypehead ty = find (\<lambda>ift. ift_type ift = ty) iftypehead"

text \<open>The macros \<^verbatim>\<open>COPYOP\<close>, \<^verbatim>\<open>COPY\<close> and \<^verbatim>\<open>DEFAULTOP\<close> of \<^verbatim>\<open>ifdriver_bless\<close>.\<close>

definition COPYOP :: "fnptr \<Rightarrow> fnptr \<Rightarrow> fnptr" where
  "COPYOP drv_op ift_op = (if drv_op = NULLfn then ift_op else drv_op)"

definition COPY :: "'a::zero \<Rightarrow> 'a \<Rightarrow> 'a" where
  "COPY drv_f ift_f = (if drv_f = 0 then ift_f else drv_f)"

definition DEFAULTOP :: "fnptr \<Rightarrow> fnptr \<Rightarrow> fnptr" where
  "DEFAULTOP drv_op dflt = (if drv_op = NULLfn then dflt else drv_op)"

definition bless_copy :: "ifdriver \<Rightarrow> iftype \<Rightarrow> ifdriver" where
  "bless_copy ifdrv ift =
     (let o1 = ifdrv_ops ifdrv; o2 = ift_ops ift in
      ifdrv\<lparr>ifdrv_ops := o1
          \<lparr>ifop_input := COPYOP (ifop_input o1) (ifop_input o2),
           ifop_transmit := COPYOP (ifop_transmit o1) (ifop_transmit o2),
           ifop_output := COPYOP (ifop_output o1) (ifop_output o2),
           ifop_ioctl := COPYOP (ifop_ioctl o1) (ifop_ioctl o2),
           ifop_get_counter := COPYOP (ifop_get_counter o1) (ifop_get_counter o2),
           ifop_qflush := COPYOP (ifop_qflush o1) (ifop_qflush o2),
           ifop_resolvemulti := COPYOP (ifop_resolvemulti o1) (ifop_resolvemulti o2),
           ifop_reassign := COPYOP (ifop_reassign o1) (ifop_reassign o2)\<rparr>,
         ifdrv_hdrlen := COPY (ifdrv_hdrlen ifdrv) (ift_hdrlen ift),
         ifdrv_addrlen := COPY (ifdrv_addrlen ifdrv) (ift_addrlen ift),
         ifdrv_dlt := COPY (ifdrv_dlt ifdrv) (ift_dlt ift),
         ifdrv_dlt_hdrlen := COPY (ifdrv_dlt_hdrlen ifdrv) (ift_dlt_hdrlen ift)\<rparr>)"

text \<open>
  \<^verbatim>\<open>ifdriver_bless\<close>. The two \<^verbatim>\<open>KASSERT\<close>s (a custom flush together with a queue
  length; TSO bytes out of range) are checks of a debugging kernel and change nothing.
\<close>

definition ifdriver_bless :: "ifdriver \<Rightarrow> iftype option \<Rightarrow> ifdriver" where
  "ifdriver_bless ifdrv ift =
     (let d1 = (case ift of None \<Rightarrow> ifdrv | Some t \<Rightarrow> bless_copy ifdrv t);
          d2 = (if ifdrv_maxqlen d1 > 0
                then d1\<lparr>ifdrv_ops := (ifdrv_ops d1)\<lparr>ifop_qflush := if_snd_qflush\<rparr>\<rparr>
                else d1);
          d3 = d2\<lparr>ifdrv_ops := (ifdrv_ops d2)
                 \<lparr>ifop_get_counter :=
                    DEFAULTOP (ifop_get_counter (ifdrv_ops d2)) if_get_counter_default\<rparr>\<rparr>;
          d4 = (if ifdrv_tsomax d3 = None then d3\<lparr>ifdrv_tsomax := Some default_tsomax\<rparr>
                else d3)
      in d4\<lparr>ifdrv_ops := (ifdrv_ops d4)\<lparr>ifop_origin := IFOP_ORIGIN_DRIVER\<rparr>,
            ifdrv_flags := ifdrv_flags d4 OR IFDRV_BLESSED\<rparr>)"

text \<open>
  The head of \<^verbatim>\<open>if_attach\<close>: find the type of the driver and bless the driver unless
  it is blessed already.
\<close>

definition if_attach_bless :: "iftype list \<Rightarrow> ifdriver \<Rightarrow> ifdriver" where
  "if_attach_bless iftypehead ifdrv =
     (let ift = iftype_find iftypehead (ifdrv_type ifdrv) in
      if ifdrv_flags ifdrv AND IFDRV_BLESSED = 0 then ifdriver_bless ifdrv ift else ifdrv)"

subsection \<open>Interface objects and the per-namespace registry\<close>

definition IFNAMSIZ :: nat where "IFNAMSIZ = 16"

definition IFF_UP :: "32 word" where "IFF_UP = 0x1"
definition IFF_PROMISC :: "32 word" where "IFF_PROMISC = 0x100"
definition IFF_ALLMULTI :: "32 word" where "IFF_ALLMULTI = 0x200"
definition IFF_PPROMISC :: "32 word" where "IFF_PPROMISC = 0x20000"
definition IFF_DYING :: "32 word" where "IFF_DYING = 0x200000"
definition IFF_RENAMING :: "32 word" where "IFF_RENAMING = 0x400000"

definition LINK_STATE_UNKNOWN :: int where "LINK_STATE_UNKNOWN = 0"
definition LINK_STATE_DOWN :: int where "LINK_STATE_DOWN = 1"
definition LINK_STATE_UP :: int where "LINK_STATE_UP = 2"

text \<open>
  The link-level address of an interface: a \<^verbatim>\<open>struct sockaddr_dl\<close> whose data area
  holds the interface name followed by the hardware address, and a second one used as
  the netmask. \<open>sdl_data\<close> is the whole data area of the allocation, so it has room for
  the longest name. The layout constants (\<^verbatim>\<open>offsetof(struct sockaddr_dl, sdl_data[0])\<close>
  is 8, \<^verbatim>\<open>sizeof(struct sockaddr_dl)\<close> is 54, \<^verbatim>\<open>sizeof(long)\<close> is 8, \<^verbatim>\<open>AF_LINK\<close>
  is 18) are those of the headers on a 64-bit machine.
\<close>

record sockaddr_dl =
  sdl_len :: nat
  sdl_family :: nat
  sdl_index :: "16 word"
  sdl_type :: nat
  sdl_nlen :: nat
  sdl_alen :: nat
  sdl_data :: "char list"

record ifaddr =
  ifa_addr :: sockaddr_dl
  ifa_netmask :: sockaddr_dl

definition AF_LINK :: nat where "AF_LINK = 18"

text \<open>
  \<^verbatim>\<open>struct ifnet\<close> is declared in a header that is not among the sources. The record
  has the fields that the modelled functions of if.c read and write, with the widths
  that if.c gives the locals it copies them to and from (\<^verbatim>\<open>u_short idx\<close>,
  \<^verbatim>\<open>uint32_t flags\<close>, \<^verbatim>\<open>int *refcount\<close>). \<open>if_linktask\<close> is the pending count of
  the embedded link-state task, \<open>if_ops_dead\<close> says that \<^verbatim>\<open>if_ops\<close> points to
  \<^verbatim>\<open>ifdead_ops\<close>.
\<close>

record ifnet =
  if_flags :: "32 word"
  if_index :: "16 word"
  if_refcount :: "32 word"
  if_xname :: string
  if_dunit :: int
  if_addr :: "ifaddr option"
  if_ops_dead :: bool
  if_link_state :: int
  if_linktask :: nat
  if_pcount :: "32 word"
  if_amcount :: "32 word"

text \<open>A \<^verbatim>\<open>struct ifnet\<close> fresh from \<^verbatim>\<open>malloc(..., M_WAITOK | M_ZERO)\<close>.\<close>

definition ifnet_zero :: ifnet where
  "ifnet_zero =
     \<lparr>if_flags = 0, if_index = 0, if_refcount = 0, if_xname = [], if_dunit = 0,
      if_addr = None, if_ops_dead = False, if_link_state = 0, if_linktask = 0,
      if_pcount = 0, if_amcount = 0\<rparr>"

text \<open>
  Pointers to interface objects are addresses; an entry of the index table is NULL, the
  reservation marker \<^verbatim>\<open>IFNET_HOLD\<close>, or a pointer.
\<close>

type_synonym ifp = nat

datatype slot = NULL | IFNET_HOLD | Ptr ifp

text \<open>
  The state of one namespace: \<^verbatim>\<open>V_if_index\<close>, \<^verbatim>\<open>V_if_indexlim\<close> (both \<^verbatim>\<open>int\<close>),
  \<^verbatim>\<open>V_ifindex_table\<close> (the empty list is the NULL table before the first \<^verbatim>\<open>if_grow\<close>),
  the list \<^verbatim>\<open>V_ifnet\<close>, and the memory holding the interface objects.
\<close>

record vnet =
  V_if_index :: int
  V_if_indexlim :: int
  V_ifindex_table :: "slot list"
  V_ifnet :: "ifp list"
  ifnets :: "ifp \<rightharpoonup> ifnet"

subsubsection \<open>Lookup by index\<close>

definition ifnet_byindex_locked :: "vnet \<Rightarrow> 16 word \<Rightarrow> error + slot" where
  "ifnet_byindex_locked s idx =
     (if uint idx > V_if_index s then Inr NULL
      else if \<not> unat idx < length (V_ifindex_table s) then Inl Fault
      else if V_ifindex_table s ! unat idx = IFNET_HOLD then Inr NULL
      else Inr (V_ifindex_table s ! unat idx))"

definition ifnet_byindex :: "vnet \<Rightarrow> 16 word \<Rightarrow> error + slot" where
  "ifnet_byindex s idx = ifnet_byindex_locked s idx"

text \<open>\<^verbatim>\<open>if_ref\<close>: \<^verbatim>\<open>refcount_acquire\<close> adds one to the counter.\<close>

definition if_ref :: "ifnet \<Rightarrow> ifnet" where
  "if_ref ifn = ifn\<lparr>if_refcount := if_refcount ifn + 1\<rparr>"

text \<open>
  \<^verbatim>\<open>ifnet_byindex_ref\<close> returns the pointer and the state, in which the reference has
  been taken if the pointer is not NULL.
\<close>

definition ifnet_byindex_ref :: "vnet \<Rightarrow> 16 word \<Rightarrow> error + (slot \<times> vnet)" where
  "ifnet_byindex_ref s idx =
     (case ifnet_byindex_locked s idx of
        Inl e \<Rightarrow> Inl e
      | Inr NULL \<Rightarrow> Inr (NULL, s)
      | Inr IFNET_HOLD \<Rightarrow> Inl Fault
      | Inr (Ptr p) \<Rightarrow>
          (case ifnets s p of
             None \<Rightarrow> Inl Fault
           | Some ifn \<Rightarrow>
               if if_flags ifn AND IFF_DYING \<noteq> 0 then Inr (NULL, s)
               else Inr (Ptr p, s\<lparr>ifnets := (ifnets s)(p \<mapsto> if_ref ifn)\<rparr>)))"

subsubsection \<open>Allocating and freeing an index\<close>

text \<open>
  The \<^verbatim>\<open>for\<close> loop of \<^verbatim>\<open>ifindex_alloc\<close>. \<^verbatim>\<open>idx\<close> is a \<^verbatim>\<open>u_short\<close>, so
  \<^verbatim>\<open>idx++\<close> wraps from 65535 to 0, and it is compared with the \<^verbatim>\<open>int\<close>
  \<^verbatim>\<open>V_if_index\<close>.
\<close>

partial_function (option) ifindex_scan :: "vnet \<Rightarrow> 16 word \<Rightarrow> (error + 16 word) option" where
  "ifindex_scan s idx =
     (if uint idx \<le> V_if_index s then
        (if \<not> unat idx < length (V_ifindex_table s) then Some (Inl Fault)
         else if V_ifindex_table s ! unat idx = NULL then Some (Inr idx)
         else ifindex_scan s (idx + 1))
      else Some (Inr idx))"

declare ifindex_scan.simps [code]

text \<open>
  \<^verbatim>\<open>if_grow\<close>: a zeroed table of twice the limit, into which the old table, if there is
  one, is copied. The source drops the lock around \<^verbatim>\<open>malloc\<close> and returns at once if
  another thread has grown the table meanwhile; in a sequential run the limit is what it
  was.
\<close>

definition if_grow :: "vnet \<Rightarrow> vnet" where
  "if_grow s =
     (let oldlim = V_if_indexlim s;
          n = nat (oldlim * 2);
          e = (if V_ifindex_table s \<noteq> []
               then map (\<lambda>i. if i < n div 2 then V_ifindex_table s ! i else NULL) [0..<n]
               else replicate n NULL)
      in s\<lparr>V_if_indexlim := oldlim * 2, V_ifindex_table := e\<rparr>)"

partial_function (option) ifindex_alloc :: "ifp \<Rightarrow> vnet \<Rightarrow> (error + vnet) option" where
  "ifindex_alloc p s =
     (case ifindex_scan s 1 of
        None \<Rightarrow> None
      | Some (Inl e) \<Rightarrow> Some (Inl e)
      | Some (Inr idx) \<Rightarrow>
          if uint idx \<ge> V_if_indexlim s then ifindex_alloc p (if_grow s)
          else if \<not> unat idx < length (V_ifindex_table s) then Some (Inl Fault)
          else (case ifnets s p of
                  None \<Rightarrow> Some (Inl Fault)
                | Some ifn \<Rightarrow>
                    Some (Inr (s\<lparr>V_if_index :=
                                   (if uint idx > V_if_index s then uint idx else V_if_index s),
                                 V_ifindex_table := (V_ifindex_table s)[unat idx := Ptr p],
                                 ifnets := (ifnets s)(p \<mapsto> ifn\<lparr>if_index := idx\<rparr>)\<rparr>))))"

declare ifindex_alloc.simps [code]

text \<open>The \<^verbatim>\<open>while\<close> loop of \<^verbatim>\<open>ifindex_free\<close>.\<close>

function ifindex_shrink :: "vnet \<Rightarrow> error + vnet" where
  "ifindex_shrink s =
     (if V_if_index s > 0 then
        (if \<not> nat (V_if_index s) < length (V_ifindex_table s) then Inl Fault
         else if V_ifindex_table s ! nat (V_if_index s) = NULL
         then ifindex_shrink (s\<lparr>V_if_index := V_if_index s - 1\<rparr>)
         else Inr s)
      else Inr s)"
  by pat_completeness auto
termination
  by (relation "measure (\<lambda>s. nat (V_if_index s))") auto

declare ifindex_shrink.simps [simp del]

definition ifindex_free :: "16 word \<Rightarrow> vnet \<Rightarrow> error + vnet" where
  "ifindex_free idx s =
     (if \<not> unat idx < length (V_ifindex_table s) then Inl Fault
      else ifindex_shrink (s\<lparr>V_ifindex_table := (V_ifindex_table s)[unat idx := NULL]\<rparr>))"

text \<open>\<^verbatim>\<open>vnet_if_init\<close>: the state of a namespace before the first interface.\<close>

definition vnet0 :: vnet where
  "vnet0 = \<lparr>V_if_index = 0, V_if_indexlim = 8, V_ifindex_table = [], V_ifnet = [],
            ifnets = Map.empty\<rparr>"

definition vnet_if_init :: vnet where
  "vnet_if_init = if_grow vnet0"

subsubsection \<open>Attach\<close>

record if_attach_args =
  ifat_error :: int
  ifat_lla :: "char list option"
  ifat_dunit :: int
  ifat_name :: "string option"
  ifat_flags :: "64 word"

definition IFAT_DUNIT_NONE :: int where "IFAT_DUNIT_NONE = - 1"

text \<open>\<^verbatim>\<open>strlcpy(dst, src, n)\<close> keeps at most \<open>n - 1\<close> characters.\<close>

definition strlcpy :: "string \<Rightarrow> nat \<Rightarrow> string" where
  "strlcpy src n = take (n - 1) src"

text \<open>The conversion \<^verbatim>\<open>%d\<close> of \<^verbatim>\<open>snprintf\<close>.\<close>

fun dec_digits :: "nat \<Rightarrow> string" where
  "dec_digits n =
     (if n < 10 then [char_of (48 + n)]
      else dec_digits (n div 10) @ [char_of (48 + n mod 10)])"

declare dec_digits.simps [simp del]

definition dec_int :: "int \<Rightarrow> string" where
  "dec_int i = (if i < 0 then CHR ''-'' # dec_digits (nat (- i)) else dec_digits (nat i))"

definition attach_name :: "if_attach_args \<Rightarrow> ifdriver \<Rightarrow> string" where
  "attach_name ifat ifdrv =
     (case ifat_name ifat of
        Some nm \<Rightarrow> strlcpy nm IFNAMSIZ
      | None \<Rightarrow>
          if ifat_dunit ifat \<noteq> IFAT_DUNIT_NONE
          then take (IFNAMSIZ - 1) (ifdrv_name ifdrv @ dec_int (ifat_dunit ifat))
          else strlcpy (ifdrv_name ifdrv) IFNAMSIZ)"

text \<open>
  \<^verbatim>\<open>bcopy\<close> into a buffer at an offset, and \<^verbatim>\<open>roundup2\<close>. Bytes that would fall
  behind the end of the buffer are dropped; the sizes computed by \<^verbatim>\<open>if_attach\<close> keep
  every write of the model inside.
\<close>

definition mem_write :: "char list \<Rightarrow> nat \<Rightarrow> char list \<Rightarrow> char list" where
  "mem_write dst off bytes =
     take (length dst) (take off dst @ bytes @ drop (off + length bytes) dst)"

definition roundup2 :: "nat \<Rightarrow> nat \<Rightarrow> nat" where
  "roundup2 x y = ((x + (y - 1)) div y) * y"

text \<open>
  The link-level address that \<^verbatim>\<open>if_attach\<close> builds: room for a name of
  \<^verbatim>\<open>IFNAMSIZ\<close> characters and the hardware address, the name and the address copied
  in, and a netmask covering the name.
\<close>

definition if_attach_ifaddr :: "ifnet \<Rightarrow> ifdriver \<Rightarrow> char list option \<Rightarrow> ifaddr" where
  "if_attach_ifaddr ifn ifdrv lla =
     (let namelen = length (if_xname ifn);
          masklen = 8 + IFNAMSIZ;
          addrlen = unat (ifdrv_addrlen ifdrv);
          socksize = roundup2 (max (masklen + addrlen) 54) 8;
          zeros = replicate (socksize - 8) (CHR 0x00);
          d1 = mem_write zeros 0 (if_xname ifn);
          d2 = (case lla of
                  None \<Rightarrow> d1
                | Some a \<Rightarrow> mem_write d1 namelen (map (\<lambda>i. a ! i) [0..<addrlen]))
      in \<lparr>ifa_addr =
            \<lparr>sdl_len = socksize mod 256, sdl_family = AF_LINK, sdl_index = if_index ifn,
             sdl_type = ifdrv_type ifdrv mod 256, sdl_nlen = namelen, sdl_alen = addrlen,
             sdl_data = d2\<rparr>,
          ifa_netmask =
            \<lparr>sdl_len = masklen, sdl_family = 0, sdl_index = 0, sdl_type = 0, sdl_nlen = 0,
             sdl_alen = 0, sdl_data = mem_write zeros 0 (replicate namelen (CHR 0xFF))\<rparr>\<rparr>)"

text \<open>
  \<^verbatim>\<open>if_attach_internal\<close> with \<^verbatim>\<open>vmove = 0\<close>: the panic on an index that is zero or
  does not lead back to the interface, and the insertion at the tail of \<^verbatim>\<open>V_ifnet\<close>.
\<close>

definition if_attach_internal :: "ifp \<Rightarrow> vnet \<Rightarrow> error + vnet" where
  "if_attach_internal p s =
     (case ifnets s p of
        None \<Rightarrow> Inl Fault
      | Some ifn \<Rightarrow>
          if if_index ifn = 0 then Inl Panic
          else (case ifnet_byindex s (if_index ifn) of
                  Inl e \<Rightarrow> Inl e
                | Inr r \<Rightarrow>
                    if Ptr p \<noteq> r then Inl Panic
                    else Inr (s\<lparr>V_ifnet := V_ifnet s @ [p]\<rparr>)))"

text \<open>
  \<^verbatim>\<open>if_attach\<close>. The arguments are the registered interface types, the unit allocator
  of the cloner (from a wanted unit to an error code and a unit), the address \<open>p\<close> that
  \<^verbatim>\<open>malloc\<close> returns for the new object, the attach arguments and the driver. The
  result is the returned pointer, the attach arguments and the driver as the call leaves
  them, and the new state.
\<close>

definition if_attach ::
  "iftype list \<Rightarrow> (int \<Rightarrow> int \<times> int) \<Rightarrow> ifp \<Rightarrow> if_attach_args \<Rightarrow> ifdriver \<Rightarrow> vnet
     \<Rightarrow> (error + (slot \<times> if_attach_args \<times> ifdriver \<times> vnet)) option" where
  "if_attach iftypehead ifc_alloc_unit p ifat0 ifdrv0 s =
     (let ifdrv = if_attach_bless iftypehead ifdrv0;
          (error, dunit) = (if ifdrv_clone ifdrv then ifc_alloc_unit (ifat_dunit ifat0)
                            else (0, ifat_dunit ifat0));
          ifat = ifat0\<lparr>ifat_dunit := dunit\<rparr>
      in if error \<noteq> 0 then Some (Inr (NULL, ifat\<lparr>ifat_error := error\<rparr>, ifdrv, s))
         else
           let ifn = ifnet_zero\<lparr>if_flags := ucast (ifat_flags ifat),
                                if_dunit := ifat_dunit ifat,
                                if_xname := attach_name ifat ifdrv\<rparr>
           in (case ifindex_alloc p (s\<lparr>ifnets := (ifnets s)(p \<mapsto> ifn)\<rparr>) of
                 None \<Rightarrow> None
               | Some (Inl e) \<Rightarrow> Some (Inl e)
               | Some (Inr s1) \<Rightarrow>
                   (case ifnets s1 p of
                      None \<Rightarrow> Some (Inl Fault)
                    | Some ifn1 \<Rightarrow>
                        let ifn2 = ifn1\<lparr>if_refcount := 1\<rparr>;
                            ifn3 = ifn2\<lparr>if_addr :=
                                     Some (if_attach_ifaddr ifn2 ifdrv (ifat_lla ifat))\<rparr>
                        in (case if_attach_internal p
                                   (s1\<lparr>ifnets := (ifnets s1)(p \<mapsto> ifn3)\<rparr>) of
                              Inl e \<Rightarrow> Some (Inl e)
                            | Inr s2 \<Rightarrow> Some (Inr (Ptr p, ifat, ifdrv, s2))))))"

subsubsection \<open>Detach\<close>

text \<open>The first statement of \<^verbatim>\<open>if_detach\<close>: the interface is marked dying.\<close>

definition if_detach_dying :: "ifp \<Rightarrow> vnet \<Rightarrow> error + vnet" where
  "if_detach_dying p s =
     (case ifnets s p of
        None \<Rightarrow> Inl Fault
      | Some ifn \<Rightarrow>
          Inr (s\<lparr>ifnets := (ifnets s)(p \<mapsto> ifn\<lparr>if_flags := if_flags ifn OR IFF_DYING\<rparr>)\<rparr>))"

text \<open>
  \<^verbatim>\<open>if_detach_internal\<close> with \<^verbatim>\<open>vmove = 0\<close>: the interface is taken off \<^verbatim>\<open>V_ifnet\<close>
  (if it is not there the function returns at once), the pending link-state task is
  drained, \<^verbatim>\<open>if_down\<close> clears \<^verbatim>\<open>IFF_UP\<close>, the operations table is replaced by the dead
  one and the link-level address is dropped.
\<close>

definition if_detach_internal :: "ifp \<Rightarrow> vnet \<Rightarrow> error + vnet" where
  "if_detach_internal p s =
     (if p \<notin> set (V_ifnet s) then Inr s
      else case ifnets s p of
             None \<Rightarrow> Inl Fault
           | Some ifn \<Rightarrow>
               Inr (s\<lparr>V_ifnet := remove1 p (V_ifnet s),
                      ifnets := (ifnets s)
                        (p \<mapsto> ifn\<lparr>if_linktask := 0,
                                  if_flags := if_flags ifn AND NOT IFF_UP,
                                  if_ops_dead := True,
                                  if_addr := None\<rparr>)\<rparr>))"

text \<open>
  The rest of \<^verbatim>\<open>if_detach\<close>: \<^verbatim>\<open>if_detach_internal\<close>, \<^verbatim>\<open>ifindex_free\<close> of the
  interface's index, and the release of the registry's reference, which frees the object
  if it was the last one (\<^verbatim>\<open>refcount_release\<close> is true when the counter was 1).
\<close>

definition if_detach_rest :: "ifp \<Rightarrow> vnet \<Rightarrow> error + vnet" where
  "if_detach_rest p s =
     (case if_detach_internal p s of
        Inl e \<Rightarrow> Inl e
      | Inr s1 \<Rightarrow>
          (case ifnets s1 p of
             None \<Rightarrow> Inl Fault
           | Some ifn \<Rightarrow>
               (case ifindex_free (if_index ifn) s1 of
                  Inl e \<Rightarrow> Inl e
                | Inr s2 \<Rightarrow>
                    (case ifnets s2 p of
                       None \<Rightarrow> Inl Fault
                     | Some ifn2 \<Rightarrow>
                         if if_refcount ifn2 = 1
                         then Inr (s2\<lparr>ifnets := (ifnets s2)(p := None)\<rparr>)
                         else Inr (s2\<lparr>ifnets := (ifnets s2)
                                     (p \<mapsto> ifn2\<lparr>if_refcount := if_refcount ifn2 - 1\<rparr>)\<rparr>)))))"

definition if_detach :: "ifp \<Rightarrow> vnet \<Rightarrow> error + vnet" where
  "if_detach p s =
     (case if_detach_dying p s of Inl e \<Rightarrow> Inl e | Inr s1 \<Rightarrow> if_detach_rest p s1)"

text \<open>
  The states of a namespace that attach, detach and reference-taking lookups lead to.
  An attach gets from \<^verbatim>\<open>malloc\<close> an address that is not in use, and only an attached
  interface is detached.
\<close>

inductive reachable :: "vnet \<Rightarrow> bool" where
  init: "reachable vnet_if_init"
| attach: "reachable s \<Longrightarrow> p \<notin> dom (ifnets s) \<Longrightarrow>
     if_attach iftypehead ifc_alloc_unit p ifat ifdrv s = Some (Inr (r, ifat', ifdrv', s')) \<Longrightarrow>
     reachable s'"
| detach: "reachable s \<Longrightarrow> p \<in> set (V_ifnet s) \<Longrightarrow> if_detach p s = Inr s' \<Longrightarrow>
     reachable s'"
| lookup: "reachable s \<Longrightarrow> ifnet_byindex_ref s idx = Inr (r, s') \<Longrightarrow> reachable s'"

subsubsection \<open>Lookup by name and rename\<close>

text \<open>
  \<^verbatim>\<open>strncmp(a, b, n) == 0\<close> on two C strings, given without their terminating NUL.
\<close>

fun strncmp_eq :: "string \<Rightarrow> string \<Rightarrow> nat \<Rightarrow> bool" where
  "strncmp_eq a b 0 = True"
| "strncmp_eq [] [] (Suc n) = True"
| "strncmp_eq (x # xs) (y # ys) (Suc n) = (x = y \<and> strncmp_eq xs ys n)"
| "strncmp_eq a b (Suc n) = False"

text \<open>\<^verbatim>\<open>ifunit\<close>: the first interface on \<^verbatim>\<open>V_ifnet\<close> with the name, or NULL.\<close>

fun ifunit_loop :: "(ifp \<rightharpoonup> ifnet) \<Rightarrow> string \<Rightarrow> ifp list \<Rightarrow> error + slot" where
  "ifunit_loop h name [] = Inr NULL"
| "ifunit_loop h name (p # ps) =
     (case h p of
        None \<Rightarrow> Inl Fault
      | Some ifn \<Rightarrow>
          if strncmp_eq name (if_xname ifn) IFNAMSIZ then Inr (Ptr p)
          else ifunit_loop h name ps)"

definition ifunit :: "vnet \<Rightarrow> string \<Rightarrow> error + slot" where
  "ifunit s name = ifunit_loop (ifnets s) name (V_ifnet s)"

text \<open>
  The successful part of the \<^verbatim>\<open>SIOCSIFNAME\<close> case: name, encoded name and netmask are
  rewritten in place.
\<close>

definition if_rename :: "string \<Rightarrow> ifnet \<Rightarrow> error + ifnet" where
  "if_rename new_name ifn0 =
     (let ifn1 = ifn0\<lparr>if_flags := if_flags ifn0 OR IFF_RENAMING\<rparr>;
          ifn2 = ifn1\<lparr>if_xname := strlcpy new_name IFNAMSIZ\<rparr>
      in case if_addr ifn2 of
           None \<Rightarrow> Inl Fault
         | Some ifa \<Rightarrow>
             let sdl = ifa_addr ifa;
                 namelen = length new_name;
                 onamelen = sdl_nlen sdl;
                 d1 = (if namelen \<noteq> onamelen
                       then mem_write (sdl_data sdl) namelen
                              (take (sdl_alen sdl) (drop onamelen (sdl_data sdl)))
                       else sdl_data sdl);
                 d2 = mem_write d1 0 new_name;
                 sdl' = sdl\<lparr>sdl_data := d2, sdl_nlen := namelen\<rparr>;
                 msk = ifa_netmask ifa;
                 m1 = mem_write (sdl_data msk) 0 (replicate onamelen (CHR 0x00));
                 m2 = mem_write m1 0 (replicate namelen (CHR 0xFF));
                 msk' = msk\<lparr>sdl_data := m2\<rparr>;
                 ifn3 = ifn2\<lparr>if_addr := Some \<lparr>ifa_addr = sdl', ifa_netmask = msk'\<rparr>\<rparr>
             in Inr (ifn3\<lparr>if_flags := if_flags ifn3 AND NOT IFF_RENAMING\<rparr>))"

text \<open>
  The \<^verbatim>\<open>SIOCSIFNAME\<close> case of \<^verbatim>\<open>if_drvioctl\<close>. \<open>priv\<close> is what \<^verbatim>\<open>priv_check\<close>
  returns, \<open>cin\<close> what \<^verbatim>\<open>copyinstr\<close> returns together with the string it has put into
  \<^verbatim>\<open>new_name\<close>. The result is the error code of the call and the new state.
\<close>

definition if_drvioctl_SIOCSIFNAME ::
  "int \<Rightarrow> int \<times> string \<Rightarrow> ifp \<Rightarrow> vnet \<Rightarrow> error + (int \<times> vnet)" where
  "if_drvioctl_SIOCSIFNAME priv cin p s =
     (if priv \<noteq> 0 then Inr (priv, s)
      else if fst cin \<noteq> 0 then Inr (fst cin, s)
      else let new_name = snd cin in
        if new_name = [] then Inr (EINVAL, s)
        else (case ifunit s new_name of
                Inl e \<Rightarrow> Inl e
              | Inr r \<Rightarrow>
                  if r \<noteq> NULL then Inr (EEXIST, s)
                  else (case ifnets s p of
                          None \<Rightarrow> Inl Fault
                        | Some ifn \<Rightarrow>
                            (case if_rename new_name ifn of
                               Inl e \<Rightarrow> Inl e
                             | Inr ifn' \<Rightarrow>
                                 Inr (0, s\<lparr>ifnets := (ifnets s)(p \<mapsto> ifn')\<rparr>)))))"

subsection \<open>Reference-counted interface flags\<close>

text \<open>
  \<^verbatim>\<open>if_setflag\<close> gets a pointer to the counter it maintains: \<^verbatim>\<open>&ifp->if_pcount\<close> from
  \<^verbatim>\<open>ifpromisc\<close>, \<^verbatim>\<open>&ifp->if_amcount\<close> from \<^verbatim>\<open>if_allmulti\<close>. The counters are
  \<^verbatim>\<open>int\<close>s; the model keeps their 32 bits.
\<close>

datatype flagcount = PCOUNT | AMCOUNT

fun get_count :: "flagcount \<Rightarrow> ifnet \<Rightarrow> 32 word" where
  "get_count PCOUNT ifn = if_pcount ifn"
| "get_count AMCOUNT ifn = if_amcount ifn"

fun set_count :: "flagcount \<Rightarrow> 32 word \<Rightarrow> ifnet \<Rightarrow> ifnet" where
  "set_count PCOUNT v ifn = ifn\<lparr>if_pcount := v\<rparr>"
| "set_count AMCOUNT v ifn = ifn\<lparr>if_amcount := v\<rparr>"

text \<open>
  The driver's ioctl routine is a parameter: called for \<^verbatim>\<open>SIOCSIFFLAGS\<close> with the
  interface and the two halves of the flags word, it returns an error code and the
  interface as it leaves it.
\<close>

type_synonym drv_ioctl = "ifnet \<Rightarrow> 16 word \<times> 16 word \<Rightarrow> int \<times> ifnet"

text \<open>
  The tail of \<^verbatim>\<open>if_setflag\<close>, from the call down to the driver: on an error the
  label \<^verbatim>\<open>recover\<close> puts the saved counter and flags back.
\<close>

definition if_setflag_driver ::
  "drv_ioctl \<Rightarrow> ifnet \<Rightarrow> flagcount \<Rightarrow> 32 word \<Rightarrow> 32 word \<Rightarrow> int \<times> ifnet" where
  "if_setflag_driver if_ioctl ifn cnt oldcount oldflags =
     (let ifr = (ucast (if_flags ifn AND 0xffff), ucast (drop_bit 16 (if_flags ifn)));
          (error, ifn') = if_ioctl ifn ifr
      in if error \<noteq> 0 then (error, (set_count cnt oldcount ifn')\<lparr>if_flags := oldflags\<rparr>)
         else (0, ifn'))"

definition if_setflag ::
  "drv_ioctl \<Rightarrow> ifnet \<Rightarrow> 32 word \<Rightarrow> 32 word \<Rightarrow> flagcount \<Rightarrow> int \<Rightarrow> int \<times> ifnet" where
  "if_setflag if_ioctl ifn flag pflag cnt onswitch =
     (if if_flags ifn AND pflag \<noteq> 0
      then (0, set_count cnt (get_count cnt ifn + (if onswitch \<noteq> 0 then 1 else - 1)) ifn)
      else
        let oldcount = get_count cnt ifn;
            oldflags = if_flags ifn
        in if onswitch \<noteq> 0 then
             (let ifn1 = set_count cnt (oldcount + 1) ifn
              in if oldcount \<noteq> 0 then (0, ifn1)
                 else if_setflag_driver if_ioctl (ifn1\<lparr>if_flags := if_flags ifn1 OR flag\<rparr>)
                        cnt oldcount oldflags)
           else
             (let ifn1 = set_count cnt (oldcount - 1) ifn
              in if oldcount - 1 \<noteq> 0 then (0, ifn1)
                 else if_setflag_driver if_ioctl
                        (ifn1\<lparr>if_flags := if_flags ifn1 AND NOT flag\<rparr>) cnt oldcount oldflags))"

definition ifpromisc :: "drv_ioctl \<Rightarrow> ifnet \<Rightarrow> int \<Rightarrow> int \<times> ifnet" where
  "ifpromisc if_ioctl ifn pswitch = if_setflag if_ioctl ifn IFF_PROMISC IFF_PPROMISC PCOUNT pswitch"

definition if_allmulti :: "drv_ioctl \<Rightarrow> ifnet \<Rightarrow> int \<Rightarrow> int \<times> ifnet" where
  "if_allmulti if_ioctl ifn onswitch = if_setflag if_ioctl ifn IFF_ALLMULTI 0 AMCOUNT onswitch"

subsection \<open>The link-state notifier\<close>

text \<open>
  Modelled from the spec: \<^verbatim>\<open>taskqueue_enqueue\<close> and the run of a queued task
  (sys/kern/subr_taskqueue.c) are not among the sources. The spec has the signal
  "schedule one unit of deferred work if none is already pending", and has the deferred
  work log "how many coalesced signals were collapsed into this single delivery": enqueueing
  counts the signal in the pending count of the task, which is queued while the count is
  not zero; running the task clears the count and hands it to the task's function.
\<close>

definition taskqueue_enqueue :: "ifnet \<Rightarrow> ifnet" where
  "taskqueue_enqueue ifn = ifn\<lparr>if_linktask := if_linktask ifn + 1\<rparr>"

definition if_link_state_change :: "ifnet \<Rightarrow> int \<Rightarrow> ifnet" where
  "if_link_state_change ifn link_state =
     (if if_link_state ifn = link_state then ifn
      else taskqueue_enqueue (ifn\<lparr>if_link_state := link_state\<rparr>))"

text \<open>
  What \<^verbatim>\<open>do_link_state_change\<close> does is call out; the model returns the calls in
  order. Which collaborators are attached to the interface, whether the namespace is the
  default one and the sysctl \<^verbatim>\<open>log_link_state_change\<close> are parameters.
\<close>

datatype notification =
    Rt_ifmsg
  | Vlan_link_state
  | Ng_ether_link_state int
  | Carp_linkstate
  | Bridge_linkstate
  | Lagg_linkstate int
  | Devctl_notify string string
  | Printf_coalesced string int
  | Log_link_state string string
  | Ifnet_link_event int

record link_env =
  has_vlantrunk :: bool
  has_ether_l2com :: bool
  has_carp :: bool
  has_bridge :: bool
  has_lagg :: bool
  is_default_vnet :: bool
  log_link_state_change :: bool

definition do_link_state_change :: "link_env \<Rightarrow> ifnet \<Rightarrow> int \<Rightarrow> notification list" where
  "do_link_state_change env ifn pending =
     (let link_state = if_link_state ifn in
      [Rt_ifmsg]
      @ (if has_vlantrunk env then [Vlan_link_state] else [])
      @ (if has_ether_l2com env then [Ng_ether_link_state link_state] else [])
      @ (if has_carp env then [Carp_linkstate] else [])
      @ (if has_bridge env then [Bridge_linkstate] else [])
      @ (if has_lagg env then [Lagg_linkstate link_state] else [])
      @ (if is_default_vnet env
         then [Devctl_notify (if_xname ifn)
                 (if link_state = LINK_STATE_UP then ''LINK_UP'' else ''LINK_DOWN'')]
         else [])
      @ (if pending > 1 then [Printf_coalesced (if_xname ifn) pending] else [])
      @ (if log_link_state_change env
         then [Log_link_state (if_xname ifn)
                 (if link_state = LINK_STATE_UP then ''UP'' else ''DOWN'')]
         else [])
      @ [Ifnet_link_event (if_link_state ifn)])"

text \<open>
  Modelled from the spec: the task queue running the link-state task of an interface, if
  it is pending.
\<close>

definition taskqueue_run :: "link_env \<Rightarrow> ifnet \<Rightarrow> ifnet \<times> notification list" where
  "taskqueue_run env ifn =
     (if if_linktask ifn = 0 then (ifn, [])
      else (ifn\<lparr>if_linktask := 0\<rparr>, do_link_state_change env ifn (int (if_linktask ifn))))"

text \<open>A burst of signals, none of which the task queue gets to run in between.\<close>

definition signals :: "int list \<Rightarrow> ifnet \<Rightarrow> ifnet" where
  "signals xs ifn = fold (\<lambda>x i. if_link_state_change i x) xs ifn"

text \<open>The coalesce counts that a list of notifications logs, and the delivered states.\<close>

definition coalesce_counts :: "notification list \<Rightarrow> int list" where
  "coalesce_counts ns = concat (map (\<lambda>n. case n of Printf_coalesced _ k \<Rightarrow> [k] | _ \<Rightarrow> []) ns)"

definition link_events :: "notification list \<Rightarrow> int list" where
  "link_events ns = concat (map (\<lambda>n. case n of Ifnet_link_event k \<Rightarrow> [k] | _ \<Rightarrow> []) ns)"

subsection \<open>Multicast memberships\<close>

text \<open>
  Modelled from the spec: \<^verbatim>\<open>struct sockaddr\<close>, \<^verbatim>\<open>struct sockaddr_dl\<close> with its macro
  \<^verbatim>\<open>LLADDR\<close>, the macro \<^verbatim>\<open>sa_equal\<close> and \<^verbatim>\<open>struct ifmultiaddr\<close> are declared in
  headers that are not among the sources. The code casts between the two address
  structures, so an address is the bytes of the object: the first byte is its length,
  the second its family ("family-tagged address"). In a link-level address byte 5 is the
  length of the name and byte 6 the length of the hardware address, the data area starts
  at byte 8, and \<^verbatim>\<open>LLADDR\<close> is the place in it after the name: the layout of the
  link-level address of an interface above. Addresses are "compared by family-specific
  equality": \<^verbatim>\<open>sa_equal\<close> compares as many bytes of the two objects as the length byte
  of the first one says. A membership has an "address, optional associated link-layer
  membership, ... reference count, owning interface back-reference"; the reference count
  is an integer without a width.

  The bytes past the end of an object are not known. Reading a field there is a fault.
  \<^verbatim>\<open>bcmp\<close> is 0 if the two ranges hold the same bytes and not 0 if they differ in a
  byte that both objects have; a comparison that the bytes of the objects do not decide
  is a fault. With the length 0 it reads nothing and is 0.
\<close>

type_synonym sockaddr = "8 word list"

definition sa_byte :: "sockaddr \<Rightarrow> nat \<Rightarrow> error + nat" where
  "sa_byte sa i = (if i < length sa then Inr (unat (sa ! i)) else Inl Fault)"

definition LLADDR :: "sockaddr \<Rightarrow> error + nat" where
  "LLADDR sa = (case sa_byte sa 5 of Inl e \<Rightarrow> Inl e | Inr nlen \<Rightarrow> Inr (8 + nlen))"

definition bcmp :: "sockaddr \<Rightarrow> nat \<Rightarrow> sockaddr \<Rightarrow> nat \<Rightarrow> nat \<Rightarrow> error + int" where
  "bcmp b1 o1 b2 o2 n =
     (let r1 = take n (drop o1 b1);
          r2 = take n (drop o2 b2);
          k = min (length r1) (length r2)
      in if take k r1 \<noteq> take k r2 then Inr 1
         else if k = n then Inr 0
         else Inl Fault)"

definition sa_equal :: "sockaddr \<Rightarrow> sockaddr \<Rightarrow> error + bool" where
  "sa_equal a1 a2 =
     (case sa_byte a1 0 of
        Inl e \<Rightarrow> Inl e
      | Inr sa_len \<Rightarrow>
          (case bcmp a1 0 a2 0 sa_len of Inl e \<Rightarrow> Inl e | Inr r \<Rightarrow> Inr (r = 0)))"

text \<open>
  \<^verbatim>\<open>sa_dl_equal\<close> is the macro of if.c: the two \<^verbatim>\<open>sdl_len\<close> are equal, and the
  \<^verbatim>\<open>sdl_alen\<close> bytes (of the first address) at \<^verbatim>\<open>LLADDR\<close> of the one and of the other
  are. The second test is not made when the first fails.
\<close>

definition sa_dl_equal :: "sockaddr \<Rightarrow> sockaddr \<Rightarrow> error + bool" where
  "sa_dl_equal a1 a2 =
     (case sa_byte a1 0 of
        Inl e \<Rightarrow> Inl e
      | Inr len1 \<Rightarrow>
          (case sa_byte a2 0 of
             Inl e \<Rightarrow> Inl e
           | Inr len2 \<Rightarrow>
               if len1 \<noteq> len2 then Inr False
               else
                 (case LLADDR a1 of
                    Inl e \<Rightarrow> Inl e
                  | Inr o1 \<Rightarrow>
                      (case LLADDR a2 of
                         Inl e \<Rightarrow> Inl e
                       | Inr o2 \<Rightarrow>
                           (case sa_byte a1 6 of
                              Inl e \<Rightarrow> Inl e
                            | Inr alen1 \<Rightarrow>
                                (case bcmp a1 o1 a2 o2 alen1 of
                                   Inl e \<Rightarrow> Inl e
                                 | Inr r \<Rightarrow> Inr (r = 0)))))))"

type_synonym ifmap = nat

record ifmultiaddr =
  ifma_addr :: sockaddr
  ifma_lladdr :: "sockaddr option"
  ifma_ifp :: "ifp option"
  ifma_refcount :: int
  ifma_llifma :: "ifmap option"

text \<open>The requests that \<^verbatim>\<open>if_ioctl\<close> hands to the driver from the multicast code.\<close>

datatype mcast_ioctl = SIOCADDMULTI | SIOCDELMULTI

text \<open>
  The multicast lists of the interfaces (each a list of pointers, head first), the memory
  holding the memberships, and the requests made to the driver so far.
\<close>

record mstate =
  if_multiaddrs :: "ifp \<Rightarrow> ifmap list"
  ifmas :: "ifmap \<rightharpoonup> ifmultiaddr"
  drv_ioctls :: "mcast_ioctl list"

text \<open>
  The test that the loop of \<^verbatim>\<open>if_findmulti\<close> makes of the address of a membership
  against the address looked for, whose family decides which comparison is used.
\<close>

definition if_findmulti_test :: "sockaddr \<Rightarrow> sockaddr \<Rightarrow> error + bool" where
  "if_findmulti_test addr sa =
     (case sa_byte sa 1 of
        Inl e \<Rightarrow> Inl e
      | Inr sa_family \<Rightarrow>
          if sa_family = AF_LINK then sa_dl_equal addr sa else sa_equal addr sa)"

fun if_findmulti_loop ::
  "(ifmap \<rightharpoonup> ifmultiaddr) \<Rightarrow> sockaddr \<Rightarrow> ifmap list \<Rightarrow> error + ifmap option" where
  "if_findmulti_loop h sa [] = Inr None"
| "if_findmulti_loop h sa (a # as) =
     (case h a of
        None \<Rightarrow> Inl Fault
      | Some ifma \<Rightarrow>
          (case if_findmulti_test (ifma_addr ifma) sa of
             Inl e \<Rightarrow> Inl e
           | Inr equal \<Rightarrow> if equal then Inr (Some a) else if_findmulti_loop h sa as))"

definition if_findmulti :: "mstate \<Rightarrow> ifp \<Rightarrow> sockaddr \<Rightarrow> error + ifmap option" where
  "if_findmulti st p sa = if_findmulti_loop (ifmas st) sa (if_multiaddrs st p)"

text \<open>
  \<^verbatim>\<open>if_allocmulti\<close> allocates without waiting, three times: the membership, the copy
  of the address and, if there is one, the copy of the link-layer address. \<open>mem\<close> is
  the outcome of the three: the address of the new membership or \<open>None\<close>, and whether
  the second and the third succeed. When one fails, what has been allocated is freed
  again and the result is NULL. A copy holds as many bytes as the length byte of the
  original says; copying bytes that the original does not have is a fault.
\<close>

type_synonym ifma_mem = "ifmap option \<times> bool \<times> bool"

definition if_allocmulti ::
  "ifma_mem \<Rightarrow> ifp \<Rightarrow> sockaddr \<Rightarrow> sockaddr option \<Rightarrow> mstate
     \<Rightarrow> error + (ifmap option \<times> mstate)" where
  "if_allocmulti mem p sa llsa st =
     (case mem of
        (None, mem_addr, mem_lladdr) \<Rightarrow> Inr (None, st)
      | (Some a, mem_addr, mem_lladdr) \<Rightarrow>
          (case sa_byte sa 0 of
             Inl e \<Rightarrow> Inl e
           | Inr sa_len \<Rightarrow>
               if \<not> mem_addr then Inr (None, st)
               else if length sa < sa_len then Inl Fault
               else
                 (case llsa of
                    None \<Rightarrow>
                      Inr (Some a,
                        st\<lparr>ifmas := (ifmas st)
                              (a \<mapsto> \<lparr>ifma_addr = take sa_len sa, ifma_lladdr = None,
                                      ifma_ifp = Some p, ifma_refcount = 1,
                                      ifma_llifma = None\<rparr>)\<rparr>)
                  | Some ll \<Rightarrow>
                      (case sa_byte ll 0 of
                         Inl e \<Rightarrow> Inl e
                       | Inr ll_len \<Rightarrow>
                           if \<not> mem_lladdr then Inr (None, st)
                           else if length ll < ll_len then Inl Fault
                           else
                             Inr (Some a,
                               st\<lparr>ifmas := (ifmas st)
                                     (a \<mapsto> \<lparr>ifma_addr = take sa_len sa,
                                             ifma_lladdr = Some (take ll_len ll),
                                             ifma_ifp = Some p, ifma_refcount = 1,
                                             ifma_llifma = None\<rparr>)\<rparr>)))))"

definition if_freemulti :: "ifmap \<Rightarrow> mstate \<Rightarrow> mstate" where
  "if_freemulti a st = st\<lparr>ifmas := (ifmas st)(a := None)\<rparr>"

text \<open>
  \<^verbatim>\<open>if_addmulti\<close>. \<open>resolve\<close> is the driver's \<^verbatim>\<open>if_resolvemulti\<close>: an error code and
  the link-layer address it leaves in \<^verbatim>\<open>llsa\<close>. \<open>mem1\<close> and \<open>mem2\<close> are the outcomes
  of the allocations of the two calls of \<^verbatim>\<open>if_allocmulti\<close>. The result is the error
  code, the membership returned through \<^verbatim>\<open>retifma\<close>, and the new state.
\<close>

definition if_addmulti ::
  "(sockaddr \<Rightarrow> int \<times> sockaddr option) \<Rightarrow> ifma_mem \<Rightarrow> ifma_mem \<Rightarrow> ifp \<Rightarrow> sockaddr
     \<Rightarrow> mstate \<Rightarrow> error + (int \<times> ifmap option \<times> mstate)" where
  "if_addmulti resolve mem1 mem2 p sa st =
     (case if_findmulti st p sa of
        Inl e \<Rightarrow> Inl e
      | Inr (Some a) \<Rightarrow>
          (case ifmas st a of
             None \<Rightarrow> Inl Fault
           | Some ifma \<Rightarrow>
               Inr (0, Some a,
                    st\<lparr>ifmas := (ifmas st)
                          (a \<mapsto> ifma\<lparr>ifma_refcount := ifma_refcount ifma + 1\<rparr>)\<rparr>))
      | Inr None \<Rightarrow>
          let (error, llsa0) = resolve sa;
              llsa = (if error = EOPNOTSUPP then None else llsa0)
          in if error \<noteq> EOPNOTSUPP \<and> error \<noteq> 0 then Inr (error, None, st)
             else
               (case if_allocmulti mem1 p sa llsa st of
                  Inl e \<Rightarrow> Inl e
                | Inr (None, st1) \<Rightarrow> Inr (ENOMEM, None, st1)
                | Inr (Some a, st1) \<Rightarrow>
                    let linked =
                      (case llsa of
                         None \<Rightarrow> Inr (Some st1)
                       | Some ll \<Rightarrow>
                           (case if_findmulti st1 p ll of
                              Inl e \<Rightarrow> Inl e
                            | Inr None \<Rightarrow>
                                (case if_allocmulti mem2 p ll None st1 of
                                   Inl e \<Rightarrow> Inl e
                                 | Inr (None, st2) \<Rightarrow> Inr None
                                 | Inr (Some b, st2) \<Rightarrow>
                                     (case ifmas st2 a of
                                        None \<Rightarrow> Inl Fault
                                      | Some ifma \<Rightarrow>
                                          Inr (Some (st2\<lparr>if_multiaddrs := (if_multiaddrs st2)
                                                           (p := b # if_multiaddrs st2 p),
                                                         ifmas := (ifmas st2)
                                                           (a \<mapsto> ifma\<lparr>ifma_llifma := Some b\<rparr>)\<rparr>))))
                            | Inr (Some b) \<Rightarrow>
                                (case ifmas st1 b of
                                   None \<Rightarrow> Inl Fault
                                 | Some llifma \<Rightarrow>
                                     let st2 = st1\<lparr>ifmas := (ifmas st1)
                                                 (b \<mapsto> llifma\<lparr>ifma_refcount :=
                                                                 ifma_refcount llifma + 1\<rparr>)\<rparr>
                                     in (case ifmas st2 a of
                                           None \<Rightarrow> Inl Fault
                                         | Some ifma \<Rightarrow>
                                             Inr (Some (st2\<lparr>ifmas := (ifmas st2)
                                                              (a \<mapsto> ifma\<lparr>ifma_llifma := Some b\<rparr>)\<rparr>))))))
                    in (case linked of
                          Inl e \<Rightarrow> Inl e
                        | Inr None \<Rightarrow> Inr (ENOMEM, None, if_freemulti a st1)
                        | Inr (Some st3) \<Rightarrow>
                            Inr (0, Some a,
                                 st3\<lparr>if_multiaddrs := (if_multiaddrs st3)
                                        (p := a # if_multiaddrs st3 p),
                                      drv_ioctls := drv_ioctls st3 @ [SIOCADDMULTI]\<rparr>))))"

text \<open>
  \<^verbatim>\<open>if_delmulti_locked\<close>: 1 if the last reference was released, else 0. The interface
  that the lists are taken from is the membership's own back-reference.
\<close>

definition if_delmulti_locked :: "ifmap \<Rightarrow> bool \<Rightarrow> mstate \<Rightarrow> error + (int \<times> mstate)" where
  "if_delmulti_locked a detaching st =
     (case ifmas st a of
        None \<Rightarrow> Inl Fault
      | Some ifma0 \<Rightarrow>
          let ifp = ifma_ifp ifma0;
              ifma1 = (if detaching \<and> ifp \<noteq> None then ifma0\<lparr>ifma_ifp := None\<rparr> else ifma0);
              ifma2 = ifma1\<lparr>ifma_refcount := ifma_refcount ifma1 - 1\<rparr>;
              st1 = st\<lparr>ifmas := (ifmas st)(a \<mapsto> ifma2)\<rparr>
          in if ifma_refcount ifma2 > 0 then Inr (0, st1)
             else
               let unlinked =
                 (case ifma_llifma ifma2 of
                    None \<Rightarrow> Inr st1
                  | Some b \<Rightarrow>
                      (case ifmas st1 b of
                         None \<Rightarrow> Inl Fault
                       | Some ll0 \<Rightarrow>
                           let ll1 = (if detaching then ll0\<lparr>ifma_ifp := None\<rparr> else ll0);
                               ll2 = ll1\<lparr>ifma_refcount := ifma_refcount ll1 - 1\<rparr>;
                               st2 = st1\<lparr>ifmas := (ifmas st1)(b \<mapsto> ll2)\<rparr>
                           in if ifma_refcount ll2 = 0 then
                                Inr (if_freemulti b
                                  (case ifp of
                                     None \<Rightarrow> st2
                                   | Some p \<Rightarrow>
                                       st2\<lparr>if_multiaddrs := (if_multiaddrs st2)
                                             (p := remove1 b (if_multiaddrs st2 p))\<rparr>))
                              else Inr st2))
               in (case unlinked of
                     Inl e \<Rightarrow> Inl e
                   | Inr st3 \<Rightarrow>
                       Inr (1, if_freemulti a
                         (case ifp of
                            None \<Rightarrow> st3
                          | Some p \<Rightarrow>
                              st3\<lparr>if_multiaddrs := (if_multiaddrs st3)
                                    (p := remove1 a (if_multiaddrs st3 p))\<rparr>))))"

text \<open>
  \<^verbatim>\<open>if_delmulti\<close> on an interface that exists: \<^verbatim>\<open>ENOENT\<close> if there is no membership
  for the address; the driver is told to reprogram its filter if the last reference went.
\<close>

definition if_delmulti :: "ifp \<Rightarrow> sockaddr \<Rightarrow> mstate \<Rightarrow> error + (int \<times> mstate)" where
  "if_delmulti p sa st =
     (case if_findmulti st p sa of
        Inl e \<Rightarrow> Inl e
      | Inr None \<Rightarrow> Inr (ENOENT, st)
      | Inr (Some a) \<Rightarrow>
          (case if_delmulti_locked a False st of
             Inl e \<Rightarrow> Inl e
           | Inr (lastref, st1) \<Rightarrow>
               if lastref \<noteq> 0 then Inr (0, st1\<lparr>drv_ioctls := drv_ioctls st1 @ [SIOCDELMULTI]\<rparr>)
               else Inr (0, st1)))"

text \<open>
  \<open>n\<close> joins of one address, and \<open>n\<close> leaves, each giving the list of the error codes
  returned. Only the first join of an address that is not there allocates, so the later
  joins are given no memory.
\<close>

fun joins ::
  "(sockaddr \<Rightarrow> int \<times> sockaddr option) \<Rightarrow> ifma_mem \<Rightarrow> ifma_mem \<Rightarrow> ifp \<Rightarrow> sockaddr
     \<Rightarrow> nat \<Rightarrow> mstate \<Rightarrow> error + (int list \<times> mstate)" where
  "joins resolve mem1 mem2 p sa 0 st = Inr ([], st)"
| "joins resolve mem1 mem2 p sa (Suc n) st =
     (case if_addmulti resolve mem1 mem2 p sa st of
        Inl e \<Rightarrow> Inl e
      | Inr (err, r, st1) \<Rightarrow>
          (case joins resolve (None, False, False) (None, False, False) p sa n st1 of
             Inl e \<Rightarrow> Inl e
           | Inr (errs, st2) \<Rightarrow> Inr (err # errs, st2)))"

fun leaves :: "ifp \<Rightarrow> sockaddr \<Rightarrow> nat \<Rightarrow> mstate \<Rightarrow> error + (int list \<times> mstate)" where
  "leaves p sa 0 st = Inr ([], st)"
| "leaves p sa (Suc n) st =
     (case if_delmulti p sa st of
        Inl e \<Rightarrow> Inl e
      | Inr (err, st1) \<Rightarrow>
          (case leaves p sa n st1 of
             Inl e \<Rightarrow> Inl e
           | Inr (errs, st2) \<Rightarrow> Inr (err # errs, st2)))"

subsection \<open>Interface groups\<close>

text \<open>
  Modelled from the spec: \<^verbatim>\<open>struct ifg_group\<close>, \<^verbatim>\<open>struct ifg_list\<close> and
  \<^verbatim>\<open>struct ifg_member\<close> are declared in a header that is not among the sources. "An
  interface holds a list of group-list entries; each named group holds a list of member
  entries and a reference count." An entry of an interface's list is the pointer to its
  group, a member entry is the pointer to its interface, the count is an integer without
  a width, and the name buffer holds \<^verbatim>\<open>IFNAMSIZ\<close> bytes.
\<close>

type_synonym ifgp = nat

record ifgroup =
  ifg_group :: string
  ifg_refcnt :: int
  ifg_members :: "ifp list"

datatype group_event = Group_attach ifgp | Group_detach ifgp | Group_change string

record gstate =
  V_ifg_head :: "ifgp list"
  ifgroups :: "ifgp \<rightharpoonup> ifgroup"
  if_groups :: "ifp \<Rightarrow> ifgp list"
  group_events :: "group_event list"

text \<open>The two loops that look for a group by name: on a list of group pointers.\<close>

fun ifg_lookup :: "(ifgp \<rightharpoonup> ifgroup) \<Rightarrow> string \<Rightarrow> ifgp list \<Rightarrow> error + ifgp option" where
  "ifg_lookup h name [] = Inr None"
| "ifg_lookup h name (g # gs) =
     (case h g of
        None \<Rightarrow> Inl Fault
      | Some ifg \<Rightarrow> if ifg_group ifg = name then Inr (Some g) else ifg_lookup h name gs)"

definition ends_in_digit :: "string \<Rightarrow> bool" where
  "ends_in_digit groupname =
     (groupname \<noteq> [] \<and> (48::nat) \<le> of_char (last groupname)
        \<and> of_char (last groupname) \<le> (57::nat))"

text \<open>
  \<^verbatim>\<open>if_addgroup\<close>. The three allocations do not wait: \<open>mem_ifgl\<close> and \<open>mem_ifgm\<close> say
  whether the first two succeed, \<open>mem_ifg\<close> is the address of a new group object or
  \<open>None\<close>.
\<close>

definition if_addgroup ::
  "bool \<Rightarrow> bool \<Rightarrow> ifgp option \<Rightarrow> ifp \<Rightarrow> string \<Rightarrow> gstate \<Rightarrow> error + (int \<times> gstate)" where
  "if_addgroup mem_ifgl mem_ifgm mem_ifg p groupname st =
     (if ends_in_digit groupname then Inr (EINVAL, st)
      else case ifg_lookup (ifgroups st) groupname (if_groups st p) of
        Inl e \<Rightarrow> Inl e
      | Inr (Some g) \<Rightarrow> Inr (EEXIST, st)
      | Inr None \<Rightarrow>
          if \<not> mem_ifgl then Inr (ENOMEM, st)
          else if \<not> mem_ifgm then Inr (ENOMEM, st)
          else (case ifg_lookup (ifgroups st) groupname (V_ifg_head st) of
                  Inl e \<Rightarrow> Inl e
                | Inr found \<Rightarrow>
                    let created =
                      (case found of
                         Some g \<Rightarrow> Some (g, False, st)
                       | None \<Rightarrow>
                           (case mem_ifg of
                              None \<Rightarrow> None
                            | Some g \<Rightarrow>
                                Some (g, True,
                                  st\<lparr>V_ifg_head := V_ifg_head st @ [g],
                                     ifgroups := (ifgroups st)
                                       (g \<mapsto> \<lparr>ifg_group = strlcpy groupname IFNAMSIZ,
                                               ifg_refcnt = 0, ifg_members = []\<rparr>)\<rparr>)))
                    in (case created of
                          None \<Rightarrow> Inr (ENOMEM, st)
                        | Some (g, new, st1) \<Rightarrow>
                            (case ifgroups st1 g of
                               None \<Rightarrow> Inl Fault
                             | Some ifg \<Rightarrow>
                                 Inr (0,
                                   st1\<lparr>ifgroups := (ifgroups st1)
                                         (g \<mapsto> ifg\<lparr>ifg_refcnt := ifg_refcnt ifg + 1,
                                                   ifg_members := ifg_members ifg @ [p]\<rparr>),
                                       if_groups := (if_groups st1)(p := if_groups st1 p @ [g]),
                                       group_events := group_events st1
                                         @ (if new then [Group_attach g] else [])
                                         @ [Group_change groupname]\<rparr>)))))"

definition if_delgroup :: "ifp \<Rightarrow> string \<Rightarrow> gstate \<Rightarrow> error + (int \<times> gstate)" where
  "if_delgroup p groupname st =
     (case ifg_lookup (ifgroups st) groupname (if_groups st p) of
        Inl e \<Rightarrow> Inl e
      | Inr None \<Rightarrow> Inr (ENOENT, st)
      | Inr (Some g) \<Rightarrow>
          let st1 = st\<lparr>if_groups := (if_groups st)(p := remove1 g (if_groups st p))\<rparr>
          in (case ifgroups st1 g of
                None \<Rightarrow> Inl Fault
              | Some ifg \<Rightarrow>
                  let ifg1 = ifg\<lparr>ifg_members := remove1 p (ifg_members ifg)\<rparr>;
                      ifg2 = ifg1\<lparr>ifg_refcnt := ifg_refcnt ifg1 - 1\<rparr>
                  in if ifg_refcnt ifg2 = 0
                     then Inr (0, st1\<lparr>V_ifg_head := remove1 g (V_ifg_head st1),
                                     ifgroups := (ifgroups st1)(g := None),
                                     group_events := group_events st1
                                       @ [Group_detach g, Group_change groupname]\<rparr>)
                     else Inr (0, st1\<lparr>ifgroups := (ifgroups st1)(g \<mapsto> ifg2),
                                     group_events := group_events st1
                                       @ [Group_change groupname]\<rparr>)))"

subsection \<open>Predicates and example states used by the theorems\<close>

text \<open>The interface at \<open>p\<close> is allocated and carries \<^verbatim>\<open>IFF_DYING\<close>.\<close>

definition is_dying :: "vnet \<Rightarrow> ifp \<Rightarrow> bool" where
  "is_dying s p =
     (case ifnets s p of None \<Rightarrow> False | Some ifn \<Rightarrow> if_flags ifn AND IFF_DYING \<noteq> 0)"

text \<open>
  A namespace with one attached interface at index 2, a reserved, not yet published
  index 1, and an object at 9 fresh from \<^verbatim>\<open>malloc\<close>.
\<close>

definition vnet_hold :: vnet where
  "vnet_hold =
     \<lparr>V_if_index = 2, V_if_indexlim = 4,
      V_ifindex_table = [NULL, IFNET_HOLD, Ptr 7, NULL], V_ifnet = [7],
      ifnets = [7 \<mapsto> ifnet_zero\<lparr>if_index := 2, if_refcount := 1\<rparr>, 9 \<mapsto> ifnet_zero]\<rparr>"

text \<open>The burst of the link-state scenario, and an environment without collaborators.\<close>

definition flap :: "int list" where
  "flap = [LINK_STATE_DOWN, LINK_STATE_UP, LINK_STATE_DOWN, LINK_STATE_UP]"

definition env0 :: link_env where
  "env0 =
     \<lparr>has_vlantrunk = False, has_ether_l2com = False, has_carp = False,
      has_bridge = False, has_lagg = False, is_default_vnet = True,
      log_link_state_change = True\<rparr>"

text \<open>
  A driver that supplies input and transmit only, and an interface type that supplies
  ioctl and output.
\<close>

definition ops_none :: ifops where
  "ops_none =
     \<lparr>ifop_input = NULLfn, ifop_transmit = NULLfn, ifop_output = NULLfn, ifop_poll = NULLfn,
      ifop_ioctl = NULLfn, ifop_get_counter = NULLfn, ifop_qflush = NULLfn,
      ifop_media_change = NULLfn, ifop_media_status = NULLfn, ifop_resolvemulti = NULLfn,
      ifop_reassign = NULLfn, ifop_vlan_event = NULLfn, ifop_origin = 0\<rparr>"

definition drv_ex :: ifdriver where
  "drv_ex =
     \<lparr>ifdrv_ops = ops_none\<lparr>ifop_input := Code 1, ifop_transmit := Code 2\<rparr>,
      ifdrv_tsomax = None, ifdrv_name = ''em'', ifdrv_clone = False, ifdrv_type = 6,
      ifdrv_hdrlen = 0, ifdrv_addrlen = 0, ifdrv_dlt = 0, ifdrv_dlt_hdrlen = 0,
      ifdrv_maxqlen = 0, ifdrv_flags = 0\<rparr>"

definition ift_ex :: iftype where
  "ift_ex =
     \<lparr>ift_type = 6, ift_ops = ops_none\<lparr>ifop_ioctl := Code 3, ifop_output := Code 4\<rparr>,
      ift_hdrlen = 14, ift_addrlen = 6, ift_dlt = 1, ift_dlt_hdrlen = 14\<rparr>"

text \<open>A driver whose ioctl routine fails with error 6 after touching the interface.\<close>

definition ioctl_fails :: drv_ioctl where
  "ioctl_fails ifn ifr = (6, ifn\<lparr>if_dunit := 99\<rparr>)"

text \<open>
  The shape of the index table that \<^verbatim>\<open>vnet_if_init\<close> sets up and allocation and
  freeing keep: the high-water mark is below the limit and within the range of an index,
  the table has as many slots as the limit says, slot 0 is never used, and every slot
  above the high-water mark is NULL.
\<close>

definition table_wf :: "vnet \<Rightarrow> bool" where
  "table_wf s =
     (0 \<le> V_if_index s \<and> V_if_index s < V_if_indexlim s \<and> V_if_index s \<le> 65535
      \<and> length (V_ifindex_table s) = nat (V_if_indexlim s)
      \<and> V_ifindex_table s ! 0 = NULL
      \<and> (\<forall>i\<in>{nat (V_if_index s) + 1 ..< length (V_ifindex_table s)}.
            V_ifindex_table s ! i = NULL))"

text \<open>
  Index \<open>i\<close> is free: its slot is NULL, or it lies behind the end of the table, where
  growing the table puts a NULL slot.
\<close>

definition slot_free :: "vnet \<Rightarrow> nat \<Rightarrow> bool" where
  "slot_free s i = (i < length (V_ifindex_table s) \<longrightarrow> V_ifindex_table s ! i = NULL)"

text \<open>
  A namespace in which every index from 1 to 65535 is in use, and the object at 65536
  that \<^verbatim>\<open>malloc\<close> has just handed to an attach.
\<close>

definition vnet_full :: vnet where
  "vnet_full =
     \<lparr>V_if_index = 65535, V_if_indexlim = 65536,
      V_ifindex_table = NULL # map Ptr [1..<65536], V_ifnet = [1..<65536],
      ifnets = (\<lambda>q. if 1 \<le> q \<and> q \<le> 65535
                     then Some (ifnet_zero\<lparr>if_index := of_nat q, if_refcount := 1\<rparr>)
                     else if q = 65536 then Some ifnet_zero else None)\<rparr>"

text \<open>
  The invariant of the registry: the index table is well-formed, no interface is on
  \<^verbatim>\<open>V_ifnet\<close> twice, and every interface on \<^verbatim>\<open>V_ifnet\<close> is allocated and has an
  index that is not zero and whose slot points back to it.
\<close>

definition live_ok :: "vnet \<Rightarrow> ifp \<Rightarrow> bool" where
  "live_ok s p =
     (case ifnets s p of
        None \<Rightarrow> False
      | Some ifn \<Rightarrow> if_index ifn \<noteq> 0
          \<and> unat (if_index ifn) < length (V_ifindex_table s)
          \<and> V_ifindex_table s ! unat (if_index ifn) = Ptr p)"

definition registry_inv :: "vnet \<Rightarrow> bool" where
  "registry_inv s =
     (table_wf s \<and> distinct (V_ifnet s) \<and> (\<forall>p\<in>set (V_ifnet s). live_ok s p))"

text \<open>Attach arguments that leave the name to the driver name and unit 0.\<close>

definition ifat_ex :: if_attach_args where
  "ifat_ex =
     \<lparr>ifat_error = 0, ifat_lla = None, ifat_dunit = 0, ifat_name = None, ifat_flags = 0\<rparr>"

text \<open>
  The interface object that \<^verbatim>\<open>if_attach\<close> leaves behind for given attach arguments,
  blessed driver and index; a unit allocator for drivers that do not clone; attach
  arguments that ask for a name; the example driver after its blessing; and the
  namespaces that attaching first one and then a second interface to a fresh namespace
  gives.
\<close>

definition attached :: "if_attach_args \<Rightarrow> ifdriver \<Rightarrow> 16 word \<Rightarrow> ifnet" where
  "attached ifat ifdrv idx =
     (let ifn = ifnet_zero\<lparr>if_flags := ucast (ifat_flags ifat), if_dunit := ifat_dunit ifat,
                           if_xname := attach_name ifat ifdrv, if_index := idx,
                           if_refcount := 1\<rparr>
      in ifn\<lparr>if_addr := Some (if_attach_ifaddr ifn ifdrv (ifat_lla ifat))\<rparr>)"

definition no_units :: "int \<Rightarrow> int \<times> int" where
  "no_units u = (0, u)"

definition ifat_named :: "string \<Rightarrow> if_attach_args" where
  "ifat_named nm = ifat_ex\<lparr>ifat_name := Some nm\<rparr>"

definition drv_blessed :: ifdriver where
  "drv_blessed = if_attach_bless [ift_ex] drv_ex"

definition vnet_one :: "string \<Rightarrow> vnet" where
  "vnet_one nm =
     \<lparr>V_if_index = 1, V_if_indexlim = 16,
      V_ifindex_table = NULL # Ptr 1 # replicate 14 NULL, V_ifnet = [1],
      ifnets = [1 \<mapsto> attached (ifat_named nm) drv_blessed 1]\<rparr>"

definition vnet_two :: "string \<Rightarrow> string \<Rightarrow> vnet" where
  "vnet_two nm1 nm2 =
     \<lparr>V_if_index = 2, V_if_indexlim = 16,
      V_ifindex_table = NULL # Ptr 1 # Ptr 2 # replicate 13 NULL, V_ifnet = [1, 2],
      ifnets = [1 \<mapsto> attached (ifat_named nm1) drv_blessed 1,
                2 \<mapsto> attached (ifat_named nm2) drv_blessed 2]\<rparr>"

text \<open>No group exists and no interface is a member of one.\<close>

definition gstate0 :: gstate where
  "gstate0 = \<lparr>V_ifg_head = [], ifgroups = Map.empty, if_groups = (\<lambda>p. []), group_events = []\<rparr>"

text \<open>
  The state in which the membership at \<open>a\<close> counts \<open>c\<close> references and everything else
  is as in \<open>st\<close>.
\<close>

definition with_refcount :: "ifmap \<Rightarrow> int \<Rightarrow> mstate \<Rightarrow> mstate" where
  "with_refcount a c st =
     (case ifmas st a of
        None \<Rightarrow> st
      | Some m \<Rightarrow> st\<lparr>ifmas := (ifmas st)(a \<mapsto> m\<lparr>ifma_refcount := c\<rparr>)\<rparr>)"

text \<open>
  An address is well-formed when its length byte counts at least the length and the
  family byte and no more bytes than the object has, and, for a link-level address, the
  header, the name and the hardware address lie within that length.
\<close>

definition sockaddr_ok :: "sockaddr \<Rightarrow> bool" where
  "sockaddr_ok sa =
     (2 \<le> length sa \<and> 2 \<le> unat (sa ! 0) \<and> unat (sa ! 0) \<le> length sa
      \<and> (unat (sa ! 1) = AF_LINK \<longrightarrow> 8 + unat (sa ! 5) + unat (sa ! 6) \<le> unat (sa ! 0)))"

text \<open>
  The group address 224.0.0.251 as a \<^verbatim>\<open>struct sockaddr_in\<close>, the link-level address
  01:00:5e:00:00:fb that a driver resolves it to, the same link-level address with
  another interface index in its header, and the state of an interface without
  memberships.
\<close>

definition sa_ex :: sockaddr where
  "sa_ex = [16, 2, 0, 0, 224, 0, 0, 251] @ replicate 8 0"

definition ll_ex :: sockaddr where
  "ll_ex = [54, 18, 0, 0, 6, 0, 6, 0, 0x01, 0x00, 0x5e, 0x00, 0x00, 0xfb] @ replicate 40 0"

definition ll_ex2 :: sockaddr where
  "ll_ex2 = [54, 18, 1, 0, 6, 0, 6, 0, 0x01, 0x00, 0x5e, 0x00, 0x00, 0xfb] @ replicate 40 0"

definition resolve_ex :: "sockaddr \<Rightarrow> int \<times> sockaddr option" where
  "resolve_ex sa = (0, Some ll_ex)"

definition mstate0 :: mstate where
  "mstate0 = \<lparr>if_multiaddrs = (\<lambda>p. []), ifmas = Map.empty, drv_ioctls = []\<rparr>"

section \<open>Properties\<close>

subsection \<open>Helper lemmas\<close>

lemma if_detach_dying_is_dying: "if_detach_dying p s = Inr s1 \<Longrightarrow> is_dying s1 p"
  by (auto simp: if_detach_dying_def is_dying_def word_ao_absorbs IFF_DYING_def
      split: option.splits)

lemma get_set_count: "get_count cnt ((set_count cnt v i)\<lparr>if_flags := f\<rparr>) = v"
  by (cases cnt) simp_all

lemma if_flags_set_count: "if_flags (set_count cnt v i) = if_flags i"
  by (cases cnt) simp_all

lemma get_count_flags: "get_count cnt (i\<lparr>if_flags := f\<rparr>) = get_count cnt i"
  by (cases cnt) simp_all

lemma get_count_set_count: "get_count cnt (set_count cnt v i) = v"
  by (cases cnt) simp_all

lemma if_setflag_driver_fail:
  assumes "if_setflag_driver if_ioctl i cnt oc ofl = (err, i')" and "err \<noteq> 0"
  shows "if_flags i' = ofl \<and> get_count cnt i' = oc
    \<and> err = fst (if_ioctl i (ucast (if_flags i AND 0xffff), ucast (drop_bit 16 (if_flags i))))"
proof -
  obtain e j where
    d: "if_ioctl i (ucast (if_flags i AND 0xffff), ucast (drop_bit 16 (if_flags i))) = (e, j)"
    by (cases "if_ioctl i (ucast (if_flags i AND 0xffff), ucast (drop_bit 16 (if_flags i)))")
  with assms have "e = err" and "i' = (set_count cnt oc j)\<lparr>if_flags := ofl\<rparr>"
    by (auto simp: if_setflag_driver_def Let_def split: if_splits)
  with d show ?thesis
    by (simp add: get_set_count)
qed

lemma link_events_do: "link_events (do_link_state_change env ifn k) = [if_link_state ifn]"
  by (simp add: link_events_def do_link_state_change_def Let_def)

lemma coalesce_counts_do:
  "coalesce_counts (do_link_state_change env ifn k) = (if k > 1 then [k] else [])"
  by (simp add: coalesce_counts_def do_link_state_change_def Let_def)

subsection \<open>Lookup by index\<close>

text \<open>
  C7. For every index, \<^verbatim>\<open>ifnet_byindex_locked\<close> returns NULL when the index is above
  the high-water mark \<^verbatim>\<open>V_if_index\<close>, and when the slot holds the reservation marker
  \<^verbatim>\<open>IFNET_HOLD\<close>; it never returns the marker, so a reserved index that has not been
  published is not exposed as an interface.
\<close>

theorem ifnet_byindex_locked_hides_reserved:
  "(V_if_index s < uint idx \<longrightarrow> ifnet_byindex_locked s idx = Inr NULL)
   \<and> (unat idx < length (V_ifindex_table s) \<and> V_ifindex_table s ! unat idx = IFNET_HOLD
        \<longrightarrow> ifnet_byindex_locked s idx = Inr NULL)
   \<and> ifnet_byindex_locked s idx \<noteq> Inr IFNET_HOLD"
  by (simp add: ifnet_byindex_locked_def)

theorem ifnet_byindex_locked_hides_reserved_witness:
  "V_if_index vnet_hold < uint (3 :: 16 word)
   \<and> ifnet_byindex_locked vnet_hold 3 = Inr NULL
   \<and> unat (1 :: 16 word) < length (V_ifindex_table vnet_hold)
   \<and> V_ifindex_table vnet_hold ! unat (1 :: 16 word) = IFNET_HOLD
   \<and> ifnet_byindex_locked vnet_hold 1 = Inr NULL
   \<and> ifnet_byindex_locked vnet_hold 2 = Inr (Ptr 7)"
  using ifnet_byindex_locked_hides_reserved [of vnet_hold 3]
    ifnet_byindex_locked_hides_reserved [of vnet_hold 1]
  by (simp add: vnet_hold_def ifnet_byindex_locked_def)

text \<open>
  C4. Once an interface carries the dying flag, which is the first thing \<^verbatim>\<open>if_detach\<close>
  sets, \<^verbatim>\<open>ifnet_byindex_ref\<close> returns NULL and leaves the state as it is for an index
  whose slot still leads to the interface, and for no index does it return the interface
  or change its reference count.
\<close>

theorem ifnet_byindex_ref_dying:
  assumes "is_dying s p"
  shows "(ifnet_byindex_locked s idx = Inr (Ptr p) \<longrightarrow> ifnet_byindex_ref s idx = Inr (NULL, s))
    \<and> (\<forall>r s'. ifnet_byindex_ref s idx = Inr (r, s') \<longrightarrow> r \<noteq> Ptr p \<and> ifnets s' p = ifnets s p)"
  using assms
  by (auto simp: is_dying_def ifnet_byindex_ref_def
      split: sum.splits slot.splits option.splits if_splits)

theorem ifnet_byindex_ref_dying_witness:
  "\<exists>s1. if_detach_dying 7 vnet_hold = Inr s1 \<and> is_dying s1 7
     \<and> ifnet_byindex_locked s1 2 = Inr (Ptr 7)
     \<and> ifnet_byindex_ref s1 2 = Inr (NULL, s1)
     \<and> ifnet_byindex_ref vnet_hold 2
         = Inr (Ptr 7, vnet_hold\<lparr>ifnets := (ifnets vnet_hold)
                  (7 \<mapsto> ifnet_zero\<lparr>if_index := 2, if_refcount := 2\<rparr>)\<rparr>)"
proof -
  obtain s1 where s1: "if_detach_dying 7 vnet_hold = Inr s1"
    by (simp add: if_detach_dying_def vnet_hold_def)
  have d: "is_dying s1 7"
    by (rule if_detach_dying_is_dying [OF s1])
  have l: "ifnet_byindex_locked s1 2 = Inr (Ptr 7)"
    using s1 by (auto simp: if_detach_dying_def vnet_hold_def ifnet_byindex_locked_def)
  have r: "ifnet_byindex_ref s1 2 = Inr (NULL, s1)"
    using ifnet_byindex_ref_dying [OF d, of 2] l by simp
  have "ifnet_byindex_ref vnet_hold 2
         = Inr (Ptr 7, vnet_hold\<lparr>ifnets := (ifnets vnet_hold)
                  (7 \<mapsto> ifnet_zero\<lparr>if_index := 2, if_refcount := 2\<rparr>)\<rparr>)"
    by (simp add: ifnet_byindex_ref_def ifnet_byindex_locked_def vnet_hold_def ifnet_zero_def
        IFF_DYING_def if_ref_def)
  with s1 d l r show ?thesis by blast
qed

subsection \<open>Capability sets\<close>

text \<open>
  C9. When a driver that has not been blessed supplies only input and transmit, and the
  interface type registered for its hardware type supplies ioctl and output and no
  counter accessor, then after the blessing that \<^verbatim>\<open>if_attach\<close> performs the four
  slots input, transmit, ioctl and output are not NULL (the first two the driver's, the
  last two the type's), and the counter accessor is the generic
  \<^verbatim>\<open>if_get_counter_default\<close>.
\<close>

theorem bless_composes_capability_set:
  assumes unblessed: "ifdrv_flags ifdrv AND IFDRV_BLESSED = 0"
    and ty: "iftype_find iftypehead (ifdrv_type ifdrv) = Some ift"
    and drv_in: "ifop_input (ifdrv_ops ifdrv) \<noteq> NULLfn"
    and drv_tx: "ifop_transmit (ifdrv_ops ifdrv) \<noteq> NULLfn"
    and drv_rest: "ifop_ioctl (ifdrv_ops ifdrv) = NULLfn" "ifop_output (ifdrv_ops ifdrv) = NULLfn"
       "ifop_get_counter (ifdrv_ops ifdrv) = NULLfn"
    and ift_io: "ifop_ioctl (ift_ops ift) \<noteq> NULLfn"
    and ift_out: "ifop_output (ift_ops ift) \<noteq> NULLfn"
    and ift_cnt: "ifop_get_counter (ift_ops ift) = NULLfn"
  shows "ifop_input (ifdrv_ops (if_attach_bless iftypehead ifdrv)) = ifop_input (ifdrv_ops ifdrv)
    \<and> ifop_transmit (ifdrv_ops (if_attach_bless iftypehead ifdrv))
        = ifop_transmit (ifdrv_ops ifdrv)
    \<and> ifop_ioctl (ifdrv_ops (if_attach_bless iftypehead ifdrv)) = ifop_ioctl (ift_ops ift)
    \<and> ifop_output (ifdrv_ops (if_attach_bless iftypehead ifdrv)) = ifop_output (ift_ops ift)
    \<and> ifop_input (ifdrv_ops (if_attach_bless iftypehead ifdrv)) \<noteq> NULLfn
    \<and> ifop_transmit (ifdrv_ops (if_attach_bless iftypehead ifdrv)) \<noteq> NULLfn
    \<and> ifop_ioctl (ifdrv_ops (if_attach_bless iftypehead ifdrv)) \<noteq> NULLfn
    \<and> ifop_output (ifdrv_ops (if_attach_bless iftypehead ifdrv)) \<noteq> NULLfn
    \<and> ifop_get_counter (ifdrv_ops (if_attach_bless iftypehead ifdrv)) = if_get_counter_default"
  using assms
  by (simp add: if_attach_bless_def ifdriver_bless_def bless_copy_def Let_def COPYOP_def
      DEFAULTOP_def)

theorem bless_composes_capability_set_witness:
  "ifdrv_flags drv_ex AND IFDRV_BLESSED = 0
   \<and> iftype_find [ift_ex] (ifdrv_type drv_ex) = Some ift_ex
   \<and> ifop_input (ifdrv_ops (if_attach_bless [ift_ex] drv_ex)) = Code 1
   \<and> ifop_transmit (ifdrv_ops (if_attach_bless [ift_ex] drv_ex)) = Code 2
   \<and> ifop_ioctl (ifdrv_ops (if_attach_bless [ift_ex] drv_ex)) = Code 3
   \<and> ifop_output (ifdrv_ops (if_attach_bless [ift_ex] drv_ex)) = Code 4
   \<and> ifop_get_counter (ifdrv_ops (if_attach_bless [ift_ex] drv_ex)) = if_get_counter_default"
proof -
  have a: "ifdrv_flags drv_ex AND IFDRV_BLESSED = 0"
    by (simp add: drv_ex_def)
  have b: "iftype_find [ift_ex] (ifdrv_type drv_ex) = Some ift_ex"
    by (simp add: iftype_find_def drv_ex_def ift_ex_def)
  from bless_composes_capability_set [OF a b] a b show ?thesis
    by (simp add: drv_ex_def ift_ex_def ops_none_def)
qed

subsection \<open>Reference-counted flags\<close>

text \<open>
  C10. When the permanent-mode flag is not set and the call is the first "on" request
  or the last "off" request, \<^verbatim>\<open>if_setflag\<close> toggles the flag, moves the counter by one
  and calls the driver's ioctl on the interface so changed; if that call fails with
  \<open>e\<close>, \<^verbatim>\<open>if_setflag\<close> returns \<open>e\<close>, and the counter and the flags word are what
  they were before the call. Conversely, an error that \<^verbatim>\<open>if_setflag\<close> returns is the
  error of that call of the driver, and the counter and the flags word are restored.
  When the permanent-mode flag is set, the call returns 0 and changes nothing but the
  counter, by one. \<^verbatim>\<open>ifpromisc\<close> and \<^verbatim>\<open>if_allmulti\<close> are instances of \<^verbatim>\<open>if_setflag\<close>.
\<close>

theorem if_setflag_failure_restores:
  "(if_flags ifn AND pflag = 0
      \<and> (if onswitch \<noteq> 0 then get_count cnt ifn = 0 else get_count cnt ifn = 1)
      \<and> t = (set_count cnt (get_count cnt ifn + (if onswitch \<noteq> 0 then 1 else - 1)) ifn)
               \<lparr>if_flags := (if onswitch \<noteq> 0 then if_flags ifn OR flag
                              else if_flags ifn AND NOT flag)\<rparr>
      \<and> if_ioctl t (ucast (if_flags t AND 0xffff), ucast (drop_bit 16 (if_flags t))) = (e, j)
      \<and> e \<noteq> 0
     \<longrightarrow> if_setflag if_ioctl ifn flag pflag cnt onswitch
           = (e, (set_count cnt (get_count cnt ifn) j)\<lparr>if_flags := if_flags ifn\<rparr>)
         \<and> if_flags (snd (if_setflag if_ioctl ifn flag pflag cnt onswitch)) = if_flags ifn
         \<and> get_count cnt (snd (if_setflag if_ioctl ifn flag pflag cnt onswitch))
             = get_count cnt ifn)
   \<and> (if_setflag if_ioctl ifn flag pflag cnt onswitch = (err, ifn') \<and> err \<noteq> 0
     \<longrightarrow> if_flags ifn' = if_flags ifn \<and> get_count cnt ifn' = get_count cnt ifn
         \<and> (\<exists>t. err = fst (if_ioctl t (ucast (if_flags t AND 0xffff),
                                          ucast (drop_bit 16 (if_flags t))))
               \<and> if_flags t = (if onswitch \<noteq> 0 then if_flags ifn OR flag
                               else if_flags ifn AND NOT flag)
               \<and> get_count cnt t = get_count cnt ifn + (if onswitch \<noteq> 0 then 1 else - 1)))
   \<and> (if_flags ifn AND pflag \<noteq> 0
     \<longrightarrow> if_setflag if_ioctl ifn flag pflag cnt onswitch
           = (0, set_count cnt (get_count cnt ifn + (if onswitch \<noteq> 0 then 1 else - 1)) ifn))"
proof (intro conjI impI)
  assume a: "if_flags ifn AND pflag = 0
      \<and> (if onswitch \<noteq> 0 then get_count cnt ifn = 0 else get_count cnt ifn = 1)
      \<and> t = (set_count cnt (get_count cnt ifn + (if onswitch \<noteq> 0 then 1 else - 1)) ifn)
               \<lparr>if_flags := (if onswitch \<noteq> 0 then if_flags ifn OR flag
                              else if_flags ifn AND NOT flag)\<rparr>
      \<and> if_ioctl t (ucast (if_flags t AND 0xffff), ucast (drop_bit 16 (if_flags t))) = (e, j)
      \<and> e \<noteq> 0"
  then have np: "if_flags ifn AND pflag = 0"
    and c: "if onswitch \<noteq> 0 then get_count cnt ifn = 0 else get_count cnt ifn = 1"
    and t: "t = (set_count cnt (get_count cnt ifn + (if onswitch \<noteq> 0 then 1 else - 1)) ifn)
               \<lparr>if_flags := (if onswitch \<noteq> 0 then if_flags ifn OR flag
                              else if_flags ifn AND NOT flag)\<rparr>"
    and d: "if_ioctl t (ucast (if_flags t AND 0xffff), ucast (drop_bit 16 (if_flags t))) = (e, j)"
    and e: "e \<noteq> 0"
    by blast+
  have drv: "if_setflag_driver if_ioctl t cnt (get_count cnt ifn) (if_flags ifn)
      = (e, (set_count cnt (get_count cnt ifn) j)\<lparr>if_flags := if_flags ifn\<rparr>)"
    using d e by (simp add: if_setflag_driver_def Let_def)
  show r: "if_setflag if_ioctl ifn flag pflag cnt onswitch
           = (e, (set_count cnt (get_count cnt ifn) j)\<lparr>if_flags := if_flags ifn\<rparr>)"
  proof (cases "onswitch \<noteq> 0")
    case True
    with c t np drv show ?thesis
      by (simp add: if_setflag_def Let_def if_flags_set_count)
  next
    case False
    with c t np drv show ?thesis
      by (simp add: if_setflag_def Let_def if_flags_set_count)
  qed
  show "if_flags (snd (if_setflag if_ioctl ifn flag pflag cnt onswitch)) = if_flags ifn"
    by (simp add: r)
  show "get_count cnt (snd (if_setflag if_ioctl ifn flag pflag cnt onswitch))
             = get_count cnt ifn"
    by (simp add: r get_set_count)
next
  assume a: "if_setflag if_ioctl ifn flag pflag cnt onswitch = (err, ifn') \<and> err \<noteq> 0"
  then have call: "if_setflag if_ioctl ifn flag pflag cnt onswitch = (err, ifn')"
    and e: "err \<noteq> 0" by blast+
  from call e have np: "if_flags ifn AND pflag = 0"
    by (auto simp: if_setflag_def split: if_splits)
  let ?c = "get_count cnt ifn + (if onswitch \<noteq> 0 then 1 else - 1)"
  let ?t = "(set_count cnt ?c ifn)\<lparr>if_flags :=
     (if onswitch \<noteq> 0 then if_flags ifn OR flag else if_flags ifn AND NOT flag)\<rparr>"
  from call e np have
    d: "if_setflag_driver if_ioctl ?t cnt (get_count cnt ifn) (if_flags ifn) = (err, ifn')"
    by (auto simp: if_setflag_def Let_def if_flags_set_count split: if_splits)
  from if_setflag_driver_fail [OF d e]
  have r: "if_flags ifn' = if_flags ifn" "get_count cnt ifn' = get_count cnt ifn"
    "err = fst (if_ioctl ?t (ucast (if_flags ?t AND 0xffff), ucast (drop_bit 16 (if_flags ?t))))"
    by blast+
  have t: "if_flags ?t = (if onswitch \<noteq> 0 then if_flags ifn OR flag
                                  else if_flags ifn AND NOT flag)"
    "get_count cnt ?t = ?c"
    by (simp_all add: get_count_flags get_count_set_count)
  show "if_flags ifn' = if_flags ifn" by (rule r(1))
  show "get_count cnt ifn' = get_count cnt ifn" by (rule r(2))
  show "\<exists>t. err = fst (if_ioctl t (ucast (if_flags t AND 0xffff),
                                          ucast (drop_bit 16 (if_flags t))))
               \<and> if_flags t = (if onswitch \<noteq> 0 then if_flags ifn OR flag
                               else if_flags ifn AND NOT flag)
               \<and> get_count cnt t = get_count cnt ifn + (if onswitch \<noteq> 0 then 1 else - 1)"
    by (intro conjI exI [of _ ?t] r(3) t)
next
  assume "if_flags ifn AND pflag \<noteq> 0"
  then show "if_setflag if_ioctl ifn flag pflag cnt onswitch
           = (0, set_count cnt (get_count cnt ifn + (if onswitch \<noteq> 0 then 1 else - 1)) ifn)"
    by (simp add: if_setflag_def)
qed

text \<open>
  A driver that fails with error 6: promiscuous mode switched on for the first time,
  all-multicast mode switched off for the last time, and promiscuous mode switched on
  while the permanent flag is set.
\<close>

theorem if_setflag_failure_restores_witness:
  "ifpromisc ioctl_fails ifnet_zero 1 = (6, ifnet_zero\<lparr>if_dunit := 99\<rparr>)
   \<and> if_allmulti ioctl_fails (ifnet_zero\<lparr>if_flags := IFF_ALLMULTI, if_amcount := 1\<rparr>) 0
       = (6, ifnet_zero\<lparr>if_flags := IFF_ALLMULTI, if_amcount := 1, if_dunit := 99\<rparr>)
   \<and> if_flags (ifnet_zero\<lparr>if_flags := IFF_PPROMISC\<rparr>) AND IFF_PPROMISC \<noteq> 0
   \<and> ifpromisc ioctl_fails (ifnet_zero\<lparr>if_flags := IFF_PPROMISC\<rparr>) 1
       = (0, ifnet_zero\<lparr>if_flags := IFF_PPROMISC, if_pcount := 1\<rparr>)"
proof -
  let ?t1 = "ifnet_zero\<lparr>if_pcount := 1, if_flags := IFF_PROMISC\<rparr>"
  have h1: "if_flags ifnet_zero AND IFF_PPROMISC = 0
      \<and> (if (1::int) \<noteq> 0 then get_count PCOUNT ifnet_zero = 0
          else get_count PCOUNT ifnet_zero = 1)
      \<and> ?t1 = (set_count PCOUNT
                 (get_count PCOUNT ifnet_zero + (if (1::int) \<noteq> 0 then 1 else - 1)) ifnet_zero)
               \<lparr>if_flags := (if (1::int) \<noteq> 0 then if_flags ifnet_zero OR IFF_PROMISC
                              else if_flags ifnet_zero AND NOT IFF_PROMISC)\<rparr>
      \<and> ioctl_fails ?t1 (ucast (if_flags ?t1 AND 0xffff), ucast (drop_bit 16 (if_flags ?t1)))
          = (6, ?t1\<lparr>if_dunit := 99\<rparr>)
      \<and> (6::int) \<noteq> 0"
    by (simp add: ioctl_fails_def ifnet_zero_def)
  have a: "if_setflag ioctl_fails ifnet_zero IFF_PROMISC IFF_PPROMISC PCOUNT 1
             = (6, ifnet_zero\<lparr>if_dunit := 99\<rparr>)"
    using if_setflag_failure_restores [where if_ioctl = ioctl_fails, THEN conjunct1, rule_format, OF h1, THEN conjunct1]
    by (simp add: ifnet_zero_def)
  let ?i2 = "ifnet_zero\<lparr>if_flags := IFF_ALLMULTI, if_amcount := 1\<rparr>"
  let ?t2 = "ifnet_zero\<lparr>if_amcount := 0, if_flags := 0\<rparr>"
  have h2: "if_flags ?i2 AND 0 = 0
      \<and> (if (0::int) \<noteq> 0 then get_count AMCOUNT ?i2 = 0 else get_count AMCOUNT ?i2 = 1)
      \<and> ?t2 = (set_count AMCOUNT
                 (get_count AMCOUNT ?i2 + (if (0::int) \<noteq> 0 then 1 else - 1)) ?i2)
               \<lparr>if_flags := (if (0::int) \<noteq> 0 then if_flags ?i2 OR IFF_ALLMULTI
                              else if_flags ?i2 AND NOT IFF_ALLMULTI)\<rparr>
      \<and> ioctl_fails ?t2 (ucast (if_flags ?t2 AND 0xffff), ucast (drop_bit 16 (if_flags ?t2)))
          = (6, ?t2\<lparr>if_dunit := 99\<rparr>)
      \<and> (6::int) \<noteq> 0"
    by (simp add: ioctl_fails_def ifnet_zero_def)
  have b: "if_setflag ioctl_fails ?i2 IFF_ALLMULTI 0 AMCOUNT 0
             = (6, ifnet_zero\<lparr>if_flags := IFF_ALLMULTI, if_amcount := 1, if_dunit := 99\<rparr>)"
    using if_setflag_failure_restores [where if_ioctl = ioctl_fails, THEN conjunct1, rule_format, OF h2, THEN conjunct1]
    by (simp add: ifnet_zero_def)
  have c: "if_flags (ifnet_zero\<lparr>if_flags := IFF_PPROMISC\<rparr>) AND IFF_PPROMISC \<noteq> 0"
    by (simp add: IFF_PPROMISC_def)
  have d: "if_setflag ioctl_fails (ifnet_zero\<lparr>if_flags := IFF_PPROMISC\<rparr>) IFF_PROMISC
             IFF_PPROMISC PCOUNT 1
             = (0, ifnet_zero\<lparr>if_flags := IFF_PPROMISC, if_pcount := 1\<rparr>)"
    using if_setflag_failure_restores [where if_ioctl = ioctl_fails and onswitch = 1
        and cnt = PCOUNT and flag = IFF_PROMISC, THEN conjunct2, THEN conjunct2, rule_format, OF c]
    by (simp add: ifnet_zero_def)
  from a b c d show ?thesis
    by (simp add: ifpromisc_def if_allmulti_def)
qed

subsection \<open>Link-state notifier\<close>

text \<open>
  C3, as amended. A signal with the recorded state changes nothing; any other signal
  records the new state at once and, on an idle task, makes the task pending. After
  the burst down, up, down, up on an interface whose task is idle, one run of the task
  delivers one link event, with the state up, and a second run delivers nothing. The
  count that is logged is the number of signals of the burst that changed the recorded
  state: 3 if the recorded state was down before the burst, so that the first signal
  was a no-op, and 4 otherwise.
\<close>

theorem link_state_coalescing:
  assumes idle: "if_linktask ifn = 0"
  shows "(if_link_state ifn = x \<longrightarrow> if_link_state_change ifn x = ifn)
    \<and> (if_link_state ifn \<noteq> x \<longrightarrow>
          if_link_state_change ifn x = ifn\<lparr>if_link_state := x, if_linktask := 1\<rparr>)
    \<and> link_events (snd (taskqueue_run env (signals flap ifn))) = [LINK_STATE_UP]
    \<and> coalesce_counts (snd (taskqueue_run env (signals flap ifn)))
        = [if if_link_state ifn = LINK_STATE_DOWN then 3 else 4]
    \<and> taskqueue_run env (fst (taskqueue_run env (signals flap ifn)))
        = (fst (taskqueue_run env (signals flap ifn)), [])"
  using idle
  by (simp add: if_link_state_change_def taskqueue_enqueue_def signals_def flap_def
      taskqueue_run_def link_events_do coalesce_counts_do
      LINK_STATE_DOWN_def LINK_STATE_UP_def)

theorem link_state_coalescing_witness:
  "if_linktask (ifnet_zero\<lparr>if_link_state := LINK_STATE_DOWN\<rparr>) = 0
   \<and> if_link_state_change (ifnet_zero\<lparr>if_link_state := LINK_STATE_DOWN\<rparr>) LINK_STATE_DOWN
       = ifnet_zero\<lparr>if_link_state := LINK_STATE_DOWN\<rparr>
   \<and> if_link_state_change (ifnet_zero\<lparr>if_link_state := LINK_STATE_DOWN\<rparr>) LINK_STATE_UP
       = ifnet_zero\<lparr>if_link_state := LINK_STATE_UP, if_linktask := 1\<rparr>
   \<and> link_events (snd (taskqueue_run env0
         (signals flap (ifnet_zero\<lparr>if_link_state := LINK_STATE_DOWN\<rparr>)))) = [LINK_STATE_UP]
   \<and> coalesce_counts (snd (taskqueue_run env0
         (signals flap (ifnet_zero\<lparr>if_link_state := LINK_STATE_DOWN\<rparr>)))) = [3]"
  using link_state_coalescing
      [of "ifnet_zero\<lparr>if_link_state := LINK_STATE_DOWN\<rparr>" LINK_STATE_DOWN env0]
    link_state_coalescing
      [of "ifnet_zero\<lparr>if_link_state := LINK_STATE_DOWN\<rparr>" LINK_STATE_UP env0]
  by (simp add: ifnet_zero_def LINK_STATE_DOWN_def LINK_STATE_UP_def)

text \<open>
  On an interface fresh from attach, whose recorded state is unknown, the same burst
  logs a count of 4, not 3.
\<close>

theorem link_state_coalescing_counterexample:
  "link_events (snd (taskqueue_run env0 (signals flap ifnet_zero))) = [LINK_STATE_UP]
   \<and> coalesce_counts (snd (taskqueue_run env0 (signals flap ifnet_zero))) = [4]
   \<and> coalesce_counts (snd (taskqueue_run env0 (signals flap ifnet_zero))) \<noteq> [3]"
  by (simp add: if_link_state_change_def taskqueue_enqueue_def signals_def flap_def
      taskqueue_run_def link_events_do coalesce_counts_do ifnet_zero_def
      LINK_STATE_DOWN_def LINK_STATE_UP_def)

subsection \<open>The index table\<close>

lemma unat_succ16: "unat (idx :: 16 word) < 65535 \<Longrightarrow> unat (idx + 1) = unat idx + 1"
  by (simp add: unat_word_ariths)

lemma uint_le_nat: "0 \<le> v \<Longrightarrow> (uint (idx :: 16 word) \<le> v) = (unat idx \<le> nat v)"
  unfolding uint_nat by linarith

lemma ifindex_scan_finds:
  assumes "0 \<le> V_if_index s"
    and "unat idx \<le> j" and "j \<le> 65535" and "j \<le> nat (V_if_index s) + 1"
    and "j \<le> nat (V_if_index s) \<Longrightarrow> j < length (V_ifindex_table s) \<and> V_ifindex_table s ! j = NULL"
    and "\<forall>k. unat idx \<le> k \<and> k < j \<longrightarrow> k < length (V_ifindex_table s) \<and> V_ifindex_table s ! k \<noteq> NULL"
  shows "ifindex_scan s idx = Some (Inr (of_nat j))"
  using assms
proof (induction "j - unat idx" arbitrary: idx)
  case 0
  then have j: "j = unat idx" by simp
  then have i: "of_nat j = idx" by simp
  show ?case
  proof (cases "uint idx \<le> V_if_index s")
    case True
    with 0 j have "j \<le> nat (V_if_index s)" by (simp add: uint_le_nat)
    with 0 have "j < length (V_ifindex_table s) \<and> V_ifindex_table s ! j = NULL" by blast
    with True j i show ?thesis
      by (subst ifindex_scan.simps) simp
  next
    case False
    with i show ?thesis by (subst ifindex_scan.simps) simp
  qed
next
  case (Suc n)
  then have lt: "unat idx < j" by simp
  with Suc.prems have le: "unat idx \<le> nat (V_if_index s)" by simp
  with Suc.prems have u: "uint idx \<le> V_if_index s" by (simp add: uint_le_nat)
  from lt Suc.prems have inr: "unat idx < length (V_ifindex_table s)"
    and nn: "V_ifindex_table s ! unat idx \<noteq> NULL" by auto
  from lt Suc.prems have s1: "unat (idx + 1) = unat idx + 1"
    by (intro unat_succ16) simp
  have "ifindex_scan s (idx + 1) = Some (Inr (of_nat j))"
  proof (rule Suc.hyps(1))
    show "n = j - unat (idx + 1)" using Suc.hyps(2) s1 by simp
    show "unat (idx + 1) \<le> j" using lt s1 by simp
    show "\<forall>k. unat (idx + 1) \<le> k \<and> k < j \<longrightarrow> k < length (V_ifindex_table s) \<and> V_ifindex_table s ! k \<noteq> NULL"
      using Suc.prems(6) s1 by simp
  qed (use Suc.prems in auto)
  with u inr nn show ?case
    by (subst ifindex_scan.simps) simp
qed

lemma least_free_bound:
  assumes wf: "table_wf s" and j: "1 \<le> j" and least: "\<forall>k\<in>{1..<j}. \<not> slot_free s k"
  shows "j \<le> nat (V_if_index s) + 1"
proof (rule ccontr)
  assume "\<not> j \<le> nat (V_if_index s) + 1"
  then have "nat (V_if_index s) + 1 \<in> {1..<j}" by simp
  with least have "\<not> slot_free s (nat (V_if_index s) + 1)" by blast
  then have "nat (V_if_index s) + 1 < length (V_ifindex_table s)"
    and "V_ifindex_table s ! (nat (V_if_index s) + 1) \<noteq> NULL"
    by (auto simp: slot_free_def)
  with wf show False by (auto simp: table_wf_def)
qed

lemma ifindex_scan_least_free:
  assumes wf: "table_wf s" and j: "1 \<le> j" "j \<le> 65535" and free: "slot_free s j"
    and least: "\<forall>k\<in>{1..<j}. \<not> slot_free s k"
  shows "ifindex_scan s 1 = Some (Inr (of_nat j))"
proof (rule ifindex_scan_finds)
  show "0 \<le> V_if_index s" using wf by (simp add: table_wf_def)
  show "unat (1 :: 16 word) \<le> j" using j by simp
  show "j \<le> 65535" by fact
  show "j \<le> nat (V_if_index s) + 1" by (rule least_free_bound [OF wf j(1) least])
  show "j < length (V_ifindex_table s) \<and> V_ifindex_table s ! j = NULL"
    if "j \<le> nat (V_if_index s)"
    using that wf free by (auto simp: table_wf_def slot_free_def)
  show "\<forall>k. unat (1 :: 16 word) \<le> k \<and> k < j \<longrightarrow>
          k < length (V_ifindex_table s) \<and> V_ifindex_table s ! k \<noteq> NULL"
    using least by (auto simp: slot_free_def)
qed

lemma if_grow_wf:
  assumes wf: "table_wf s"
  shows "if_grow s = s\<lparr>V_if_indexlim := 2 * V_if_indexlim s,
           V_ifindex_table := V_ifindex_table s @ replicate (length (V_ifindex_table s)) NULL\<rparr>"
proof -
  let ?t = "V_ifindex_table s"
  let ?n = "length ?t"
  from wf have n: "?n = nat (V_if_indexlim s)" and pos: "0 < V_if_indexlim s"
    by (auto simp: table_wf_def)
  then have ne: "?t \<noteq> []" by auto
  have n2: "nat (V_if_indexlim s * 2) = 2 * ?n" using n pos by simp
  have "map (\<lambda>i. if i < ?n then ?t ! i else NULL) [0..<2 * ?n] = ?t @ replicate ?n NULL"
    by (rule nth_equalityI) (auto simp: nth_append)
  with ne n2 show ?thesis
    by (simp add: if_grow_def Let_def mult.commute)
qed

lemma ifindex_alloc_below_limit:
  assumes wf: "table_wf s" and p: "ifnets s p = Some ifn"
    and j: "1 \<le> j" "j \<le> 65535" and free: "slot_free s j"
    and least: "\<forall>k\<in>{1..<j}. \<not> slot_free s k"
    and lim: "j < length (V_ifindex_table s)"
  shows "ifindex_alloc p s =
    Some (Inr (s\<lparr>V_if_index := max (V_if_index s) (int j),
                 V_ifindex_table := (V_ifindex_table s)[j := Ptr p],
                 ifnets := (ifnets s)(p \<mapsto> ifn\<lparr>if_index := of_nat j\<rparr>)\<rparr>))"
proof -
  have sc: "ifindex_scan s 1 = Some (Inr (of_nat j))"
    by (rule ifindex_scan_least_free [OF wf j free least])
  have u: "unat (of_nat j :: 16 word) = j" using j by (simp add: unat_of_nat)
  then have ui: "uint (of_nat j :: 16 word) = int j" by (simp add: uint_nat)
  from wf lim have l: "\<not> V_if_indexlim s \<le> int j" by (auto simp: table_wf_def)
  show ?thesis
    by (subst ifindex_alloc.simps) (auto simp: sc u ui l lim p max_def)
qed

lemma table_wf_grow:
  assumes wf: "table_wf s"
  shows "table_wf (if_grow s)"
  using wf unfolding if_grow_wf [OF wf]
  by (auto simp: table_wf_def nth_append)

lemma slot_free_grow:
  assumes wf: "table_wf s"
  shows "slot_free (if_grow s) k = (k < length (V_ifindex_table s) \<longrightarrow> V_ifindex_table s ! k = NULL)"
  unfolding if_grow_wf [OF wf] by (auto simp: slot_free_def nth_append)

lemma ifindex_alloc_at_limit:
  assumes wf: "table_wf s" and p: "ifnets s p = Some ifn"
    and j: "1 \<le> j" "j \<le> 65535" and free: "slot_free s j"
    and least: "\<forall>k\<in>{1..<j}. \<not> slot_free s k"
    and lim: "\<not> j < length (V_ifindex_table s)"
  shows "ifindex_alloc p s =
    Some (Inr (s\<lparr>V_if_index := max (V_if_index s) (int j),
                 V_if_indexlim := 2 * V_if_indexlim s,
                 V_ifindex_table :=
                   (V_ifindex_table s @ replicate (length (V_ifindex_table s)) NULL)[j := Ptr p],
                 ifnets := (ifnets s)(p \<mapsto> ifn\<lparr>if_index := of_nat j\<rparr>)\<rparr>))"
proof -
  have sc: "ifindex_scan s 1 = Some (Inr (of_nat j))"
    by (rule ifindex_scan_least_free [OF wf j free least])
  have u: "unat (of_nat j :: 16 word) = j" using j by (simp add: unat_of_nat)
  then have ui: "uint (of_nat j :: 16 word) = int j" by (simp add: uint_nat)
  from wf lim have l: "V_if_indexlim s \<le> int j" by (auto simp: table_wf_def)
  have step: "ifindex_alloc p s = ifindex_alloc p (if_grow s)"
    by (subst ifindex_alloc.simps) (simp add: sc ui l)
  have jb: "j \<le> nat (V_if_index s) + 1" by (rule least_free_bound [OF wf j(1) least])
  with wf have jl: "j < 2 * length (V_ifindex_table s)" by (auto simp: table_wf_def)
  have wf': "table_wf (if_grow s)" by (rule table_wf_grow [OF wf])
  have p': "ifnets (if_grow s) p = Some ifn" using p by (simp add: if_grow_wf [OF wf])
  have free': "slot_free (if_grow s) j" using lim by (simp add: slot_free_grow [OF wf])
  have least': "\<forall>k\<in>{1..<j}. \<not> slot_free (if_grow s) k"
    using least unfolding slot_free_grow [OF wf] by (auto simp: slot_free_def)
  have lim': "j < length (V_ifindex_table (if_grow s))"
    using jl by (simp add: if_grow_wf [OF wf])
  show ?thesis
    unfolding step ifindex_alloc_below_limit [OF wf' p' j free' least' lim']
    by (simp add: if_grow_wf [OF wf])
qed

lemma ifindex_scan_wraps:
  assumes hi: "V_if_index s = 65535" and len: "65535 < length (V_ifindex_table s)"
    and z: "V_ifindex_table s ! 0 = NULL"
    and full: "\<forall>k. unat idx \<le> k \<and> k \<le> 65535 \<longrightarrow> V_ifindex_table s ! k \<noteq> NULL"
  shows "ifindex_scan s idx = Some (Inr 0)"
  using full
proof (induction "65535 - unat idx" arbitrary: idx)
  case 0
  have "unat idx \<le> 65535" using unsigned_less [of idx, where 'a = nat] by simp
  with 0 have e: "unat idx = 65535" by simp
  then have i: "idx = 65535" by (simp add: word_unat_eq_iff)
  from 0 e have nn: "V_ifindex_table s ! unat idx \<noteq> NULL" by simp
  have u: "uint idx \<le> V_if_index s" using e hi by (simp add: uint_nat)
  have r: "unat idx < length (V_ifindex_table s)" using e len by simp
  have u0: "uint (0 :: 16 word) \<le> V_if_index s" using hi by simp
  have r0: "unat (0 :: 16 word) < length (V_ifindex_table s)" using len by auto
  have z0: "V_ifindex_table s ! unat (0 :: 16 word) = NULL" using z by simp
  have zz: "ifindex_scan s 0 = Some (Inr 0)"
    by (subst ifindex_scan.simps) (simp only: u0 r0 z0 if_True not_True_eq_False if_False refl)
  have w: "idx + 1 = 0" unfolding i by simp
  have "ifindex_scan s idx = ifindex_scan s (idx + 1)"
    by (subst ifindex_scan.simps) (simp only: u r nn if_True not_True_eq_False if_False)
  with zz w show ?case by simp
next
  case (Suc n)
  then have lt: "unat idx < 65535" by linarith
  then have s1: "unat (idx + 1) = unat idx + 1" by (rule unat_succ16)
  from Suc.prems lt have nn: "V_ifindex_table s ! unat idx \<noteq> NULL"
    by (meson less_imp_le_nat order_refl)
  have u: "uint idx \<le> V_if_index s" unfolding uint_nat hi using lt by linarith
  have r: "unat idx < length (V_ifindex_table s)" using lt len by linarith
  have "ifindex_scan s (idx + 1) = Some (Inr 0)"
  proof (rule Suc.hyps(1))
    show "n = 65535 - unat (idx + 1)" using Suc.hyps(2) s1 by linarith
    show "\<forall>k. unat (idx + 1) \<le> k \<and> k \<le> 65535 \<longrightarrow> V_ifindex_table s ! k \<noteq> NULL"
    proof (intro allI impI)
      fix k assume k: "unat (idx + 1) \<le> k \<and> k \<le> 65535"
      then have "unat idx \<le> k" unfolding s1 by linarith
      with k Suc.prems show "V_ifindex_table s ! k \<noteq> NULL" by blast
    qed
  qed
  moreover have "ifindex_scan s idx = ifindex_scan s (idx + 1)"
    by (subst ifindex_scan.simps) (simp only: u r nn if_True not_True_eq_False if_False)
  ultimately show ?case by simp
qed


lemma ifindex_shrink_result:
  assumes "V_if_index s < int (length (V_ifindex_table s))"
  shows "\<exists>v. ifindex_shrink s = Inr (s\<lparr>V_if_index := v\<rparr>) \<and> v \<le> V_if_index s
      \<and> (0 \<le> V_if_index s \<longrightarrow> 0 \<le> v)
      \<and> (0 < v \<longrightarrow> V_ifindex_table s ! nat v \<noteq> NULL)
      \<and> (\<forall>i. v < i \<and> i \<le> V_if_index s \<longrightarrow> V_ifindex_table s ! nat i = NULL)"
  using assms
proof (induction s rule: ifindex_shrink.induct)
  case (1 s)
  show ?case
  proof (cases "0 < V_if_index s \<and> V_ifindex_table s ! nat (V_if_index s) = NULL")
    case False
    with "1.prems" have "ifindex_shrink s = Inr (s\<lparr>V_if_index := V_if_index s\<rparr>)"
      by (subst ifindex_shrink.simps) auto
    with False show ?thesis by (intro exI [of _ "V_if_index s"]) auto
  next
    case True
    let ?s' = "s\<lparr>V_if_index := V_if_index s - 1\<rparr>"
    from True "1.prems" have r: "nat (V_if_index s) < length (V_ifindex_table s)" by linarith
    from "1.prems" have "V_if_index ?s' < int (length (V_ifindex_table ?s'))" by simp
    with "1.IH" [of] True r obtain v where
      v: "ifindex_shrink ?s' = Inr (?s'\<lparr>V_if_index := v\<rparr>)" "v \<le> V_if_index ?s'"
        "0 \<le> V_if_index ?s' \<longrightarrow> 0 \<le> v"
        "0 < v \<longrightarrow> V_ifindex_table ?s' ! nat v \<noteq> NULL"
        "\<forall>i. v < i \<and> i \<le> V_if_index ?s' \<longrightarrow> V_ifindex_table ?s' ! nat i = NULL"
      by auto
    have step: "ifindex_shrink s = ifindex_shrink ?s'"
      using True r by (subst ifindex_shrink.simps) simp
    have "\<forall>i. v < i \<and> i \<le> V_if_index s \<longrightarrow> V_ifindex_table s ! nat i = NULL"
    proof (intro allI impI)
      fix i assume i: "v < i \<and> i \<le> V_if_index s"
      show "V_ifindex_table s ! nat i = NULL"
      proof (cases "i = V_if_index s")
        case True
        with \<open>0 < V_if_index s \<and> V_ifindex_table s ! nat (V_if_index s) = NULL\<close> show ?thesis by simp
      next
        case False
        with i have "v < i \<and> i \<le> V_if_index ?s'" by simp
        with v(5) show ?thesis by simp
      qed
    qed
    with v step True show ?thesis
      by (intro exI [of _ v]) auto
  qed
qed

lemma ifindex_free_result:
  assumes wf: "table_wf s" and r: "unat idx < length (V_ifindex_table s)"
  shows "\<exists>v. ifindex_free idx s =
           Inr (s\<lparr>V_ifindex_table := (V_ifindex_table s)[unat idx := NULL], V_if_index := v\<rparr>)
      \<and> 0 \<le> v \<and> v \<le> V_if_index s
      \<and> (0 < v \<longrightarrow> (V_ifindex_table s)[unat idx := NULL] ! nat v \<noteq> NULL)
      \<and> (\<forall>i. v < i \<and> i \<le> V_if_index s \<longrightarrow> (V_ifindex_table s)[unat idx := NULL] ! nat i = NULL)"
proof -
  let ?s1 = "s\<lparr>V_ifindex_table := (V_ifindex_table s)[unat idx := NULL]\<rparr>"
  from wf have "V_if_index ?s1 < int (length (V_ifindex_table ?s1))"
    by (auto simp: table_wf_def)
  from ifindex_shrink_result [OF this] obtain v where
    "ifindex_shrink ?s1 = Inr (?s1\<lparr>V_if_index := v\<rparr>)" "v \<le> V_if_index s"
    "0 \<le> V_if_index s \<longrightarrow> 0 \<le> v"
    "0 < v \<longrightarrow> (V_ifindex_table s)[unat idx := NULL] ! nat v \<noteq> NULL"
    "\<forall>i. v < i \<and> i \<le> V_if_index s \<longrightarrow> (V_ifindex_table s)[unat idx := NULL] ! nat i = NULL"
    by auto
  with wf r show ?thesis
    by (intro exI [of _ v]) (auto simp: ifindex_free_def table_wf_def)
qed

lemma table_wf_free:
  assumes wf: "table_wf s" and v: "0 \<le> v" "v \<le> V_if_index s"
    and cleared: "\<forall>i. v < i \<and> i \<le> V_if_index s \<longrightarrow> (V_ifindex_table s)[k := NULL] ! nat i = NULL"
  shows "table_wf (s\<lparr>V_ifindex_table := (V_ifindex_table s)[k := NULL], V_if_index := v\<rparr>)"
proof -
  let ?t = "(V_ifindex_table s)[k := NULL]"
  have z: "?t ! 0 = NULL"
    using wf by (cases "k = 0") (auto simp: table_wf_def nth_list_update)
  have top: "?t ! i = NULL" if "i \<in> {nat v + 1 ..< length ?t}" for i
  proof (cases "int i \<le> V_if_index s")
    case True
    with that v have "v < int i \<and> int i \<le> V_if_index s" by auto
    with cleared have "?t ! nat (int i) = NULL" by blast
    then show ?thesis by simp
  next
    case False
    with that wf have "V_ifindex_table s ! i = NULL" by (auto simp: table_wf_def)
    with that show ?thesis by (cases "i = k") auto
  qed
  from wf v z top show ?thesis
    by (auto simp: table_wf_def)
qed

lemma table_wf_alloc:
  assumes wf: "table_wf s" and j: "1 \<le> j" "j \<le> 65535" "j < length (V_ifindex_table s)"
  shows "table_wf (s\<lparr>V_if_index := max (V_if_index s) (int j),
                 V_ifindex_table := (V_ifindex_table s)[j := Ptr p],
                 ifnets := h\<rparr>)"
  using wf j by (auto simp: table_wf_def nth_list_update max_def)

lemma vnet_full_nth:
  "1 \<le> k \<Longrightarrow> k \<le> 65535 \<Longrightarrow> V_ifindex_table vnet_full ! k = Ptr k"
  unfolding vnet_full_def by (cases k) simp_all

lemma vnet_full_wf: "table_wf vnet_full"
  by (simp add: table_wf_def vnet_full_def)

lemma vnet_full_scan: "ifindex_scan vnet_full 1 = Some (Inr 0)"
proof (rule ifindex_scan_wraps)
  show "V_if_index vnet_full = 65535" by (simp add: vnet_full_def)
  show "65535 < length (V_ifindex_table vnet_full)" by (simp add: vnet_full_def)
  show "V_ifindex_table vnet_full ! 0 = NULL" by (simp add: vnet_full_def)
  show "\<forall>k. unat (1 :: 16 word) \<le> k \<and> k \<le> 65535 \<longrightarrow> V_ifindex_table vnet_full ! k \<noteq> NULL"
    by (simp add: vnet_full_nth)
qed

text \<open>
  What allocation and freeing do in a well-formed table in which some index from 1 to
  65535 is free: \<^verbatim>\<open>ifindex_alloc\<close> returns, and assigns the smallest free index \<open>j\<close>
  that is at least 1: if \<open>j\<close> is below the limit the table keeps its size, and if no
  index below the limit is free the table is doubled once, the old slots copied and the
  new ones NULL, and \<open>j\<close> is the first of the new slots. No other slot of the table
  changes, and the table stays well-formed. \<^verbatim>\<open>ifindex_free\<close> sets the slot to NULL and
  lowers the high-water mark to the highest slot that is not NULL, or to 0.
\<close>

lemma ifindex_alloc_lowest_free:
  assumes wf: "table_wf s"
  shows "(ifnets s p = Some ifn \<and> 1 \<le> j \<and> j \<le> 65535 \<and> slot_free s j
            \<and> (\<forall>k\<in>{1..<j}. \<not> slot_free s k) \<longrightarrow>
      (\<exists>s'. ifindex_alloc p s = Some (Inr s')
         \<and> s' = s\<lparr>V_if_index := max (V_if_index s) (int j),
                  V_if_indexlim := (if j < length (V_ifindex_table s) then V_if_indexlim s
                                    else 2 * V_if_indexlim s),
                  V_ifindex_table :=
                    (if j < length (V_ifindex_table s) then V_ifindex_table s
                     else V_ifindex_table s @ replicate (length (V_ifindex_table s)) NULL)
                    [j := Ptr p],
                  ifnets := (ifnets s)(p \<mapsto> ifn\<lparr>if_index := of_nat j\<rparr>)\<rparr>
         \<and> (\<forall>i<length (V_ifindex_table s). i \<noteq> j \<longrightarrow>
               V_ifindex_table s' ! i = V_ifindex_table s ! i)
         \<and> table_wf s'))
    \<and> (unat idx < length (V_ifindex_table s) \<longrightarrow>
      (\<exists>v. ifindex_free idx s =
           Inr (s\<lparr>V_ifindex_table := (V_ifindex_table s)[unat idx := NULL], V_if_index := v\<rparr>)
         \<and> 0 \<le> v \<and> v \<le> V_if_index s
         \<and> (0 < v \<longrightarrow> (V_ifindex_table s)[unat idx := NULL] ! nat v \<noteq> NULL)
         \<and> (\<forall>i. v < i \<and> i \<le> V_if_index s \<longrightarrow>
               (V_ifindex_table s)[unat idx := NULL] ! nat i = NULL)))"
proof (rule conjI; rule impI)
  assume a: "ifnets s p = Some ifn \<and> 1 \<le> j \<and> j \<le> 65535 \<and> slot_free s j
            \<and> (\<forall>k\<in>{1..<j}. \<not> slot_free s k)"
  then have p: "ifnets s p = Some ifn" and j: "1 \<le> j" "j \<le> 65535" and free: "slot_free s j"
    and least: "\<forall>k\<in>{1..<j}. \<not> slot_free s k"
    by auto
  show "\<exists>s'. ifindex_alloc p s = Some (Inr s')
         \<and> s' = s\<lparr>V_if_index := max (V_if_index s) (int j),
                  V_if_indexlim := (if j < length (V_ifindex_table s) then V_if_indexlim s
                                    else 2 * V_if_indexlim s),
                  V_ifindex_table :=
                    (if j < length (V_ifindex_table s) then V_ifindex_table s
                     else V_ifindex_table s @ replicate (length (V_ifindex_table s)) NULL)
                    [j := Ptr p],
                  ifnets := (ifnets s)(p \<mapsto> ifn\<lparr>if_index := of_nat j\<rparr>)\<rparr>
         \<and> (\<forall>i<length (V_ifindex_table s). i \<noteq> j \<longrightarrow>
               V_ifindex_table s' ! i = V_ifindex_table s ! i)
         \<and> table_wf s'"
  proof (cases "j < length (V_ifindex_table s)")
    case True
    from ifindex_alloc_below_limit [OF wf p j free least True]
      table_wf_alloc [OF wf j True,
        where p = p and h = "(ifnets s)(p \<mapsto> ifn\<lparr>if_index := of_nat j\<rparr>)"] True
    show ?thesis by simp
  next
    case False
    have jb: "j \<le> nat (V_if_index s) + 1" by (rule least_free_bound [OF wf j(1) least])
    with wf have jl: "j < length (V_ifindex_table (if_grow s))"
      by (auto simp: table_wf_def if_grow_wf [OF wf])
    have "table_wf (if_grow s\<lparr>V_if_index := max (V_if_index (if_grow s)) (int j),
                 V_ifindex_table := (V_ifindex_table (if_grow s))[j := Ptr p],
                 ifnets := (ifnets s)(p \<mapsto> ifn\<lparr>if_index := of_nat j\<rparr>)\<rparr>)"
      by (rule table_wf_alloc [OF table_wf_grow [OF wf] j jl])
    then have w: "table_wf (s\<lparr>V_if_index := max (V_if_index s) (int j),
                 V_if_indexlim := 2 * V_if_indexlim s,
                 V_ifindex_table :=
                   (V_ifindex_table s @ replicate (length (V_ifindex_table s)) NULL)[j := Ptr p],
                 ifnets := (ifnets s)(p \<mapsto> ifn\<lparr>if_index := of_nat j\<rparr>)\<rparr>)"
      by (simp add: if_grow_wf [OF wf] table_wf_def)
    from ifindex_alloc_at_limit [OF wf p j free least False] w False
    show ?thesis by (simp add: nth_append)
  qed
next
  assume "unat idx < length (V_ifindex_table s)"
  from ifindex_free_result [OF wf this]
  show "\<exists>v. ifindex_free idx s =
           Inr (s\<lparr>V_ifindex_table := (V_ifindex_table s)[unat idx := NULL], V_if_index := v\<rparr>)
         \<and> 0 \<le> v \<and> v \<le> V_if_index s
         \<and> (0 < v \<longrightarrow> (V_ifindex_table s)[unat idx := NULL] ! nat v \<noteq> NULL)
         \<and> (\<forall>i. v < i \<and> i \<le> V_if_index s \<longrightarrow>
               (V_ifindex_table s)[unat idx := NULL] ! nat i = NULL)" .
qed

text \<open>Index 3 is the lowest free one in the table with a reserved and a used slot.\<close>

lemma ifindex_alloc_lowest_free_example:
  "table_wf vnet_hold \<and> ifnets vnet_hold 9 = Some ifnet_zero
   \<and> slot_free vnet_hold 3 \<and> \<not> slot_free vnet_hold 1 \<and> \<not> slot_free vnet_hold 2
   \<and> ifindex_alloc 9 vnet_hold
       = Some (Inr (vnet_hold\<lparr>V_if_index := 3,
                     V_ifindex_table := [NULL, IFNET_HOLD, Ptr 7, Ptr 9],
                     ifnets := (ifnets vnet_hold)(9 \<mapsto> ifnet_zero\<lparr>if_index := 3\<rparr>)\<rparr>))
   \<and> (\<exists>v. ifindex_free 2 vnet_hold
            = Inr (vnet_hold\<lparr>V_ifindex_table := [NULL, IFNET_HOLD, NULL, NULL], V_if_index := v\<rparr>)
          \<and> 0 \<le> v \<and> v \<le> 2)"
proof -
  have wf: "table_wf vnet_hold"
    by (simp add: table_wf_def vnet_hold_def)
  have h: "ifnets vnet_hold 9 = Some ifnet_zero"
    by (simp add: vnet_hold_def)
  have f: "slot_free vnet_hold 3" "\<not> slot_free vnet_hold 1" "\<not> slot_free vnet_hold 2"
    by (simp_all add: slot_free_def vnet_hold_def)
  have l: "\<forall>k\<in>{1..<3::nat}. \<not> slot_free vnet_hold k"
  proof
    fix k :: nat assume "k \<in> {1..<3}"
    then have "k = 1 \<or> k = 2" by auto
    with f show "\<not> slot_free vnet_hold k" by auto
  qed
  from ifindex_alloc_lowest_free [OF wf, of 9 ifnet_zero 3 2] h f l
  have "ifindex_alloc 9 vnet_hold
       = Some (Inr (vnet_hold\<lparr>V_if_index := 3,
                     V_ifindex_table := [NULL, IFNET_HOLD, Ptr 7, Ptr 9],
                     ifnets := (ifnets vnet_hold)(9 \<mapsto> ifnet_zero\<lparr>if_index := 3\<rparr>)\<rparr>))"
    and "\<exists>v. ifindex_free 2 vnet_hold
            = Inr (vnet_hold\<lparr>V_ifindex_table := [NULL, IFNET_HOLD, NULL, NULL], V_if_index := v\<rparr>)
          \<and> 0 \<le> v \<and> v \<le> 2"
    by (auto simp: vnet_hold_def)
  with wf h f show ?thesis by blast
qed

text \<open>
  C6. With every index from 1 to 65535 in use and the limit at 65536 (a well-formed
  table, \<open>vnet_full_wf\<close>), no slot below the limit is free, and \<^verbatim>\<open>ifindex_alloc\<close> neither grows the table nor assigns an index
  that is at least 1: the \<^verbatim>\<open>u_short\<close> index wraps from 65535 to 0, slot 0 is NULL, the
  test under the comment "Catch if_index overflow" lets 0 through, slot 0 is overwritten
  with the interface and the interface is given index 0. The limit and the length of the
  table are what they were, and \<^verbatim>\<open>if_attach_internal\<close>, which \<^verbatim>\<open>if_attach\<close> calls next,
  panics on the index 0.
\<close>

theorem ifindex_alloc_exhausted_takes_zero:
  "ifnets vnet_full 65536 = Some ifnet_zero
   \<and> V_if_index vnet_full = 65535 \<and> V_if_indexlim vnet_full = 65536
   \<and> ifindex_alloc 65536 vnet_full
       = Some (Inr (vnet_full\<lparr>V_ifindex_table := Ptr 65536 # map Ptr [1..<65536]\<rparr>))
   \<and> V_if_indexlim (vnet_full\<lparr>V_ifindex_table := Ptr 65536 # map Ptr [1..<65536]\<rparr>) = 65536
   \<and> length (V_ifindex_table (vnet_full\<lparr>V_ifindex_table := Ptr 65536 # map Ptr [1..<65536]\<rparr>))
       = 65536
   \<and> ifnets (vnet_full\<lparr>V_ifindex_table := Ptr 65536 # map Ptr [1..<65536]\<rparr>) 65536
       = Some ifnet_zero
   \<and> if_index ifnet_zero = 0
   \<and> if_attach_internal 65536 (vnet_full\<lparr>V_ifindex_table := Ptr 65536 # map Ptr [1..<65536]\<rparr>)
       = Inl Panic"
proof -
  have h: "ifnets vnet_full 65536 = Some ifnet_zero"
    by (simp add: vnet_full_def)
  have u: "(ifnets vnet_full)(65536 \<mapsto> ifnet_zero) = ifnets vnet_full"
    using h by (rule map_upd_triv)
  have z: "ifnet_zero\<lparr>if_index := 0\<rparr> = ifnet_zero"
    by (simp add: ifnet_zero_def)
  have a: "ifindex_alloc 65536 vnet_full
       = Some (Inr (vnet_full\<lparr>V_ifindex_table := Ptr 65536 # map Ptr [1..<65536]\<rparr>))"
    apply (subst ifindex_alloc.simps)
    apply (simp add: vnet_full_scan h z u)
    apply (simp add: vnet_full_def)
    done
  have i: "if_index ifnet_zero = 0" by (simp add: ifnet_zero_def)
  have h': "ifnets (vnet_full\<lparr>V_ifindex_table := Ptr 65536 # map Ptr [1..<65536]\<rparr>) 65536
       = Some ifnet_zero"
    using h by simp
  have pn: "if_attach_internal 65536
       (vnet_full\<lparr>V_ifindex_table := Ptr 65536 # map Ptr [1..<65536]\<rparr>) = Inl Panic"
    using h' i by (simp add: if_attach_internal_def)
  have l: "V_if_index vnet_full = 65535" "V_if_indexlim vnet_full = 65536"
    "length (V_ifindex_table (vnet_full\<lparr>V_ifindex_table := Ptr 65536 # map Ptr [1..<65536]\<rparr>))
       = 65536"
    by (simp_all add: vnet_full_def)
  from h a i h' pn l show ?thesis by simp
qed

subsection \<open>Attach and detach\<close>

lemma live_ok_iff:
  "live_ok s p \<longleftrightarrow> (\<exists>ifn. ifnets s p = Some ifn \<and> if_index ifn \<noteq> 0
      \<and> unat (if_index ifn) < length (V_ifindex_table s)
      \<and> V_ifindex_table s ! unat (if_index ifn) = Ptr p)"
  by (simp add: live_ok_def split: option.splits)

lemma registry_inv_init: "registry_inv vnet_if_init"
  by (simp add: registry_inv_def table_wf_def vnet_if_init_def vnet0_def if_grow_def Let_def)

lemma registry_invD:
  assumes "registry_inv s" and "p \<in> set (V_ifnet s)"
  obtains ifn where "ifnets s p = Some ifn" "if_index ifn \<noteq> 0"
    "unat (if_index ifn) < length (V_ifindex_table s)"
    "V_ifindex_table s ! unat (if_index ifn) = Ptr p"
  using assms by (auto simp: registry_inv_def live_ok_iff)

lemma ifindex_alloc_exhausted:
  assumes wf: "table_wf s" and p: "ifnets s p = Some ifn"
    and full: "\<forall>k\<in>{1..65535}. \<not> slot_free s k"
  shows "ifindex_alloc p s =
    Some (Inr (s\<lparr>V_ifindex_table := (V_ifindex_table s)[0 := Ptr p],
                 ifnets := (ifnets s)(p \<mapsto> ifn\<lparr>if_index := 0\<rparr>)\<rparr>))"
proof -
  have "\<not> slot_free s 65535" using full by simp
  then have len: "65535 < length (V_ifindex_table s)" and "V_ifindex_table s ! 65535 \<noteq> NULL"
    by (auto simp: slot_free_def)
  with wf have hi: "V_if_index s = 65535"
    by (auto simp: table_wf_def)
  have z: "V_ifindex_table s ! 0 = NULL" using wf by (simp add: table_wf_def)
  have nn: "\<forall>k. unat (1 :: 16 word) \<le> k \<and> k \<le> 65535 \<longrightarrow> V_ifindex_table s ! k \<noteq> NULL"
    using full by (auto simp: slot_free_def)
  have sc: "ifindex_scan s 1 = Some (Inr 0)"
    by (rule ifindex_scan_wraps [OF hi len z nn])
  have l: "\<not> V_if_indexlim s \<le> 0" using wf by (auto simp: table_wf_def)
  have r: "0 < length (V_ifindex_table s)" using len by linarith
  show ?thesis
    using hi r p l by (subst ifindex_alloc.simps) (simp add: sc)
qed


lemma least_free_exists:
  assumes "\<not> (\<forall>k\<in>{1..65535}. \<not> slot_free s k)"
  obtains j where "1 \<le> j" "j \<le> 65535" "slot_free s j" "\<forall>k\<in>{1..<j}. \<not> slot_free s k"
proof -
  let ?P = "\<lambda>k. 1 \<le> k \<and> k \<le> 65535 \<and> slot_free s k"
  from assms have "\<exists>k. ?P k" by auto
  then obtain j where j: "?P j" "\<forall>m<j. \<not> ?P m"
    using exists_least_iff [of ?P] by blast
  then have "\<forall>k\<in>{1..<j}. \<not> slot_free s k" by auto
  with j that show ?thesis by blast
qed

lemma of_nat_index_nonzero: "1 \<le> j \<Longrightarrow> j \<le> 65535 \<Longrightarrow> (of_nat j :: 16 word) \<noteq> 0"
  by (simp add: word_unat_eq_iff unat_of_nat)

lemma unat_of_nat_index: "j \<le> 65535 \<Longrightarrow> unat (of_nat j :: 16 word) = j"
  by (simp add: unat_of_nat)

lemma if_attach_cases:
  assumes "if_attach T U p ifat drv s = Some (Inr (r, a, d, s'))"
  shows "(r = NULL \<and> s' = s)
    \<or> (\<exists>ifn0 s1 ifn1 ifa. ifindex_alloc p (s\<lparr>ifnets := (ifnets s)(p \<mapsto> ifn0)\<rparr>) = Some (Inr s1)
          \<and> ifnets s1 p = Some ifn1 \<and> r = Ptr p
          \<and> if_attach_internal p
               (s1\<lparr>ifnets := (ifnets s1)(p \<mapsto> ifn1\<lparr>if_refcount := 1, if_addr := Some ifa\<rparr>)\<rparr>)
              = Inr s')"
  using assms
  by (auto simp: if_attach_def Let_def split: prod.splits if_splits option.splits sum.splits)

lemma registry_inv_heap_fresh:
  assumes inv: "registry_inv s" and fresh: "p \<notin> dom (ifnets s)"
  shows "registry_inv (s\<lparr>ifnets := (ifnets s)(p \<mapsto> ifn0)\<rparr>)" and "p \<notin> set (V_ifnet s)"
proof -
  show np: "p \<notin> set (V_ifnet s)"
    using inv fresh by (auto simp: registry_inv_def live_ok_iff)
  then show "registry_inv (s\<lparr>ifnets := (ifnets s)(p \<mapsto> ifn0)\<rparr>)"
    using inv by (auto simp: registry_inv_def table_wf_def live_ok_iff)
qed


lemma ifindex_alloc_explicit:
  assumes wf: "table_wf s" and p: "ifnets s p = Some ifn"
    and j: "1 \<le> j" "j \<le> 65535" and free: "slot_free s j"
    and least: "\<forall>k\<in>{1..<j}. \<not> slot_free s k"
  shows "ifindex_alloc p s = Some (Inr
           (s\<lparr>V_if_index := max (V_if_index s) (int j),
               V_if_indexlim := (if j < length (V_ifindex_table s) then V_if_indexlim s
                                 else 2 * V_if_indexlim s),
               V_ifindex_table :=
                 (if j < length (V_ifindex_table s) then V_ifindex_table s
                  else V_ifindex_table s @ replicate (length (V_ifindex_table s)) NULL)
                 [j := Ptr p],
               ifnets := (ifnets s)(p \<mapsto> ifn\<lparr>if_index := of_nat j\<rparr>)\<rparr>))"
proof (cases "j < length (V_ifindex_table s)")
  case True
  from ifindex_alloc_below_limit [OF wf p j free least True] True
  show ?thesis by simp
next
  case False
  from ifindex_alloc_at_limit [OF wf p j free least False] False
  show ?thesis by simp
qed

lemma ifindex_alloc_result:
  assumes wf: "table_wf s" and p: "ifnets s p = Some ifn"
    and j: "1 \<le> j" "j \<le> 65535" and free: "slot_free s j"
    and least: "\<forall>k\<in>{1..<j}. \<not> slot_free s k"
  obtains s' where "ifindex_alloc p s = Some (Inr s')" "V_ifnet s' = V_ifnet s"
    "ifnets s' = (ifnets s)(p \<mapsto> ifn\<lparr>if_index := of_nat j\<rparr>)"
    "j < length (V_ifindex_table s')" "V_ifindex_table s' ! j = Ptr p"
    "length (V_ifindex_table s) \<le> length (V_ifindex_table s')"
    "\<forall>i<length (V_ifindex_table s). i \<noteq> j \<longrightarrow> V_ifindex_table s' ! i = V_ifindex_table s ! i"
    "table_wf s'" "int j \<le> V_if_index s'"
proof -
  let ?s' = "s\<lparr>V_if_index := max (V_if_index s) (int j),
               V_if_indexlim := (if j < length (V_ifindex_table s) then V_if_indexlim s
                                 else 2 * V_if_indexlim s),
               V_ifindex_table :=
                 (if j < length (V_ifindex_table s) then V_ifindex_table s
                  else V_ifindex_table s @ replicate (length (V_ifindex_table s)) NULL)
                 [j := Ptr p],
               ifnets := (ifnets s)(p \<mapsto> ifn\<lparr>if_index := of_nat j\<rparr>)\<rparr>"
  have jb: "j \<le> nat (V_if_index s) + 1" by (rule least_free_bound [OF wf j(1) least])
  with wf have jl: "j < 2 * length (V_ifindex_table s)" by (auto simp: table_wf_def)
  have a: "ifindex_alloc p s = Some (Inr ?s')"
    by (rule ifindex_alloc_explicit [OF wf p j free least])
  have w: "table_wf ?s'"
    using wf j jl by (auto simp: table_wf_def nth_list_update nth_append max_def)
  show ?thesis
    by (rule that [OF a _ _ _ _ _ _ w]) (use jl in \<open>auto simp: nth_append\<close>)
qed

lemma if_attach_internal_ok:
  assumes "ifnets s p = Some ifn" and "if_index ifn \<noteq> 0"
    and "uint (if_index ifn) \<le> V_if_index s"
    and "unat (if_index ifn) < length (V_ifindex_table s)"
    and "V_ifindex_table s ! unat (if_index ifn) = Ptr p"
  shows "if_attach_internal p s = Inr (s\<lparr>V_ifnet := V_ifnet s @ [p]\<rparr>)"
  using assms by (simp add: if_attach_internal_def ifnet_byindex_def ifnet_byindex_locked_def)

lemma if_attach_internal_zero:
  assumes "ifnets s p = Some ifn" and "if_index ifn = 0"
  shows "if_attach_internal p s = Inl Panic"
  using assms by (simp add: if_attach_internal_def)


lemma if_attach_inv:
  assumes inv: "registry_inv s" and fresh: "p \<notin> dom (ifnets s)"
    and att: "if_attach T U p ifat drv s = Some (Inr (r, a, d, s'))"
  shows "registry_inv s' \<and> ((r = NULL \<and> s' = s)
    \<or> (r = Ptr p \<and> (\<exists>j ifn. 1 \<le> j \<and> j \<le> 65535 \<and> slot_free s j
          \<and> (\<forall>k\<in>{1..<j}. \<not> slot_free s k)
          \<and> V_ifnet s' = V_ifnet s @ [p] \<and> ifnets s' = (ifnets s)(p \<mapsto> ifn)
          \<and> if_index ifn = of_nat j)))"
proof -
  from if_attach_cases [OF att] show ?thesis
  proof (elim disjE exE conjE)
    assume "r = NULL" "s' = s"
    with inv show ?thesis by simp
  next
    fix ifn0 s1 ifn1 ifa
    let ?s0 = "s\<lparr>ifnets := (ifnets s)(p \<mapsto> ifn0)\<rparr>"
    assume al: "ifindex_alloc p ?s0 = Some (Inr s1)" and h1: "ifnets s1 p = Some ifn1"
      and r: "r = Ptr p"
      and ai: "if_attach_internal p
               (s1\<lparr>ifnets := (ifnets s1)(p \<mapsto> ifn1\<lparr>if_refcount := 1, if_addr := Some ifa\<rparr>)\<rparr>)
              = Inr s'"
    have inv0: "registry_inv ?s0" and np: "p \<notin> set (V_ifnet s)"
      by (rule registry_inv_heap_fresh [OF inv fresh])+
    then have wf0: "table_wf ?s0" by (simp add: registry_inv_def)
    have p0: "ifnets ?s0 p = Some ifn0" by simp
    have sf: "slot_free ?s0 k = slot_free s k" for k by (simp add: slot_free_def)
    show ?thesis
    proof (cases "\<forall>k\<in>{1..65535}. \<not> slot_free ?s0 k")
      case True
      from ifindex_alloc_exhausted [OF wf0 p0 True] al h1
      have "if_index ifn1 = 0" by auto
      then have "if_attach_internal p
               (s1\<lparr>ifnets := (ifnets s1)(p \<mapsto> ifn1\<lparr>if_refcount := 1, if_addr := Some ifa\<rparr>)\<rparr>)
              = Inl Panic"
        by (intro if_attach_internal_zero [where ifn = "ifn1\<lparr>if_refcount := 1, if_addr := Some ifa\<rparr>"]) simp_all
      with ai show ?thesis by simp
    next
      case False
      then obtain j where j: "1 \<le> j" "j \<le> 65535" and free: "slot_free ?s0 j"
        and least: "\<forall>k\<in>{1..<j}. \<not> slot_free ?s0 k"
        by (rule least_free_exists)
      from ifindex_alloc_result [OF wf0 p0 j free least] obtain s1' where
        a: "ifindex_alloc p ?s0 = Some (Inr s1')" and v: "V_ifnet s1' = V_ifnet ?s0"
        and h: "ifnets s1' = (ifnets ?s0)(p \<mapsto> ifn0\<lparr>if_index := of_nat j\<rparr>)"
        and jl: "j < length (V_ifindex_table s1')" and tj: "V_ifindex_table s1' ! j = Ptr p"
        and ll: "length (V_ifindex_table ?s0) \<le> length (V_ifindex_table s1')"
        and keep: "\<forall>i<length (V_ifindex_table ?s0). i \<noteq> j \<longrightarrow>
                      V_ifindex_table s1' ! i = V_ifindex_table ?s0 ! i"
        and wf1: "table_wf s1'" and jh: "int j \<le> V_if_index s1'"
        by blast
      from a al have e: "s1' = s1" by simp
      from h h1 e have i1: "ifn1 = ifn0\<lparr>if_index := of_nat j\<rparr>" by simp
      let ?ifn = "ifn1\<lparr>if_refcount := 1, if_addr := Some ifa\<rparr>"
      let ?s2 = "s1\<lparr>ifnets := (ifnets s1)(p \<mapsto> ?ifn)\<rparr>"
      have ix: "if_index ?ifn = of_nat j" using i1 by simp
      have uj: "unat (of_nat j :: 16 word) = j" using j by (simp add: unat_of_nat_index)
      have "if_attach_internal p ?s2 = Inr (?s2\<lparr>V_ifnet := V_ifnet ?s2 @ [p]\<rparr>)"
      proof (rule if_attach_internal_ok [where ifn = ?ifn])
        show "ifnets ?s2 p = Some ?ifn" by simp
        show "if_index ?ifn \<noteq> 0" unfolding ix by (rule of_nat_index_nonzero [OF j])
        show "uint (if_index ?ifn) \<le> V_if_index ?s2"
          unfolding ix using jh e uj by (simp add: uint_nat)
        show "unat (if_index ?ifn) < length (V_ifindex_table ?s2)"
          unfolding ix uj using jl e by simp
        show "V_ifindex_table ?s2 ! unat (if_index ?ifn) = Ptr p"
          unfolding ix uj using tj e by simp
      qed
      with ai have s': "s' = ?s2\<lparr>V_ifnet := V_ifnet ?s2 @ [p]\<rparr>" by simp
      have hs': "ifnets s' = (ifnets s)(p \<mapsto> ?ifn)"
        unfolding s' using h e by simp
      have vs': "V_ifnet s' = V_ifnet s @ [p]"
        unfolding s' using v e by simp
      have ts': "V_ifindex_table s' = V_ifindex_table s1'" unfolding s' e by simp
      have wf': "table_wf s'" using wf1 unfolding s' e by (simp add: table_wf_def)
      have lp: "live_ok s' p"
        unfolding live_ok_iff hs' ts' using ix uj jl tj of_nat_index_nonzero [OF j] by simp
      have lq: "live_ok s' q" if q: "q \<in> set (V_ifnet s)" for q
      proof -
        from registry_invD [OF inv q] obtain ifq where
          hq: "ifnets s q = Some ifq" and nz: "if_index ifq \<noteq> 0"
          and rq: "unat (if_index ifq) < length (V_ifindex_table s)"
          and tq: "V_ifindex_table s ! unat (if_index ifq) = Ptr q"
          by blast
        from q np have qp: "q \<noteq> p" by auto
        have nj: "unat (if_index ifq) \<noteq> j"
          using free rq tq by (auto simp: slot_free_def)
        from keep rq nj have "V_ifindex_table s1' ! unat (if_index ifq) = V_ifindex_table s ! unat (if_index ifq)"
          by simp
        with tq rq ll hq nz qp show ?thesis
          unfolding live_ok_iff hs' ts' by simp
      qed
      have "registry_inv s'"
        unfolding registry_inv_def vs' using wf' inv np lp lq
        by (auto simp: registry_inv_def)
      moreover have "slot_free s j" "\<forall>k\<in>{1..<j}. \<not> slot_free s k"
        using free least by (simp_all add: sf)
      ultimately show ?thesis
        using r j hs' vs' ix by blast
    qed
  qed
qed


lemma if_detach_inv:
  assumes inv: "registry_inv s" and live: "p \<in> set (V_ifnet s)"
  obtains s' ifn where "ifnets s p = Some ifn" "if_detach p s = Inr s'" "registry_inv s'"
    "V_ifnet s' = remove1 p (V_ifnet s)" "slot_free s' (unat (if_index ifn))"
    "unat (if_index ifn) < length (V_ifindex_table s')"
proof -
  from registry_invD [OF inv live] obtain ifn where
    hp: "ifnets s p = Some ifn" and nz: "if_index ifn \<noteq> 0"
    and rp: "unat (if_index ifn) < length (V_ifindex_table s)"
    and tp: "V_ifindex_table s ! unat (if_index ifn) = Ptr p"
    by blast
  let ?idx = "if_index ifn"
  let ?ifa = "ifn\<lparr>if_flags := if_flags ifn OR IFF_DYING\<rparr>"
  let ?sa = "s\<lparr>ifnets := (ifnets s)(p \<mapsto> ?ifa)\<rparr>"
  let ?ifb = "?ifa\<lparr>if_linktask := 0, if_flags := if_flags ?ifa AND NOT IFF_UP,
                    if_ops_dead := True, if_addr := None\<rparr>"
  let ?sb = "?sa\<lparr>V_ifnet := remove1 p (V_ifnet ?sa), ifnets := (ifnets ?sa)(p \<mapsto> ?ifb)\<rparr>"
  have d1: "if_detach_dying p s = Inr ?sa" using hp by (simp add: if_detach_dying_def)
  have d2: "if_detach_internal p ?sa = Inr ?sb" using live by (simp add: if_detach_internal_def)
  have wfb: "table_wf ?sb" using inv by (simp add: registry_inv_def table_wf_def)
  have rb: "unat ?idx < length (V_ifindex_table ?sb)" using rp by simp
  from ifindex_free_result [OF wfb rb] obtain v where
    fr: "ifindex_free ?idx ?sb =
           Inr (?sb\<lparr>V_ifindex_table := (V_ifindex_table ?sb)[unat ?idx := NULL], V_if_index := v\<rparr>)"
    and v: "0 \<le> v" "v \<le> V_if_index ?sb"
    and cl: "\<forall>i. v < i \<and> i \<le> V_if_index ?sb \<longrightarrow>
               (V_ifindex_table ?sb)[unat ?idx := NULL] ! nat i = NULL"
    by blast
  let ?sc = "?sb\<lparr>V_ifindex_table := (V_ifindex_table ?sb)[unat ?idx := NULL], V_if_index := v\<rparr>"
  let ?s' = "if if_refcount ?ifb = 1 then ?sc\<lparr>ifnets := (ifnets ?sc)(p := None)\<rparr>
             else ?sc\<lparr>ifnets := (ifnets ?sc)(p \<mapsto> ?ifb\<lparr>if_refcount := if_refcount ?ifb - 1\<rparr>)\<rparr>"
  have d3: "if_detach_rest p ?sa = Inr ?s'"
    unfolding if_detach_rest_def d2 using fr by simp
  have d: "if_detach p s = Inr ?s'"
    unfolding if_detach_def d1 using d3 by simp
  have wfc: "table_wf ?sc" by (rule table_wf_free [OF wfb v cl])
  then have wf': "table_wf ?s'" by (simp add: table_wf_def)
  have vs: "V_ifnet ?s' = remove1 p (V_ifnet s)" by simp
  have ts: "V_ifindex_table ?s' = (V_ifindex_table s)[unat ?idx := NULL]" by simp
  from inv have dist: "distinct (V_ifnet s)" by (simp add: registry_inv_def)
  have lq: "live_ok ?s' q" if q: "q \<in> set (remove1 p (V_ifnet s))" for q
  proof -
    from q dist have qp: "q \<noteq> p" and ql: "q \<in> set (V_ifnet s)" by auto
    from registry_invD [OF inv ql] obtain ifq where
      hq: "ifnets s q = Some ifq" and nzq: "if_index ifq \<noteq> 0"
      and rq: "unat (if_index ifq) < length (V_ifindex_table s)"
      and tq: "V_ifindex_table s ! unat (if_index ifq) = Ptr q"
      by blast
    from tq tp qp have ne: "unat (if_index ifq) \<noteq> unat ?idx" by auto
    have hq': "ifnets ?s' q = Some ifq" using hq qp by simp
    show ?thesis
      unfolding live_ok_iff ts hq' using nzq rq tq ne by simp
  qed
  have inv': "registry_inv ?s'"
    unfolding registry_inv_def vs using wf' dist lq by auto
  have sf: "slot_free ?s' (unat ?idx)"
    unfolding slot_free_def ts using rp by simp
  have rl: "unat ?idx < length (V_ifindex_table ?s')" unfolding ts using rp by simp
  from that [OF hp d inv' vs sf rl] show ?thesis .
qed

lemma ifnet_byindex_ref_inv:
  assumes inv: "registry_inv s" and lk: "ifnet_byindex_ref s idx = Inr (r, s')"
  shows "registry_inv s'"
proof -
  from lk have "s' = s \<or> (\<exists>p ifn. ifnets s p = Some ifn
      \<and> s' = s\<lparr>ifnets := (ifnets s)(p \<mapsto> if_ref ifn)\<rparr>)"
    by (auto simp: ifnet_byindex_ref_def split: sum.splits slot.splits option.splits if_splits)
  then show ?thesis
  proof (elim disjE exE conjE)
    assume "s' = s" with inv show ?thesis by simp
  next
    fix p ifn assume h: "ifnets s p = Some ifn"
      and s': "s' = s\<lparr>ifnets := (ifnets s)(p \<mapsto> if_ref ifn)\<rparr>"
    have "live_ok s' q" if "live_ok s q" for q
      using that h unfolding live_ok_iff s' by (cases "q = p") (auto simp: if_ref_def)
    with inv show ?thesis
      unfolding s' registry_inv_def by (auto simp: table_wf_def s')
  qed
qed

lemma reachable_inv: "reachable s \<Longrightarrow> registry_inv s"
proof (induction rule: reachable.induct)
  case init
  show ?case by (rule registry_inv_init)
next
  case (attach s p iftypehead ifc_alloc_unit ifat ifdrv r ifat' ifdrv' s')
  from if_attach_inv [OF attach.IH attach.hyps(2) attach.hyps(3)] show ?case by blast
next
  case (detach s p s')
  from if_detach_inv [OF detach.IH detach.hyps(2)] detach.hyps(3) show ?case
    by (metis Inr_inject)
next
  case (lookup s idx r s')
  from ifnet_byindex_ref_inv [OF lookup.IH lookup.hyps(2)] show ?case .
qed


lemma if_attach_returns:
  assumes inv: "registry_inv s" and fresh: "p \<notin> dom (ifnets s)"
    and i: "1 \<le> i" "i \<le> 65535" and fi: "slot_free s i"
  shows "\<exists>r a d s'. if_attach T U p ifat drv s = Some (Inr (r, a, d, s'))"
proof -
  let ?ifdrv = "if_attach_bless T drv"
  let ?eu = "if ifdrv_clone ?ifdrv then U (ifat_dunit ifat) else (0, ifat_dunit ifat)"
  let ?ifat1 = "ifat\<lparr>ifat_dunit := snd ?eu\<rparr>"
  let ?ifn0 = "ifnet_zero\<lparr>if_flags := ucast (ifat_flags ?ifat1),
                                if_dunit := ifat_dunit ?ifat1,
                                if_xname := attach_name ?ifat1 ?ifdrv\<rparr>"
  let ?s0 = "s\<lparr>ifnets := (ifnets s)(p \<mapsto> ?ifn0)\<rparr>"
  show ?thesis
  proof (cases "fst ?eu \<noteq> 0")
    case True
    then show ?thesis
      by (simp add: if_attach_def Let_def case_prod_beta)
  next
    case False
    have inv0: "registry_inv ?s0"
      by (rule registry_inv_heap_fresh [OF inv fresh])
    then have wf0: "table_wf ?s0" by (simp add: registry_inv_def)
    have p0: "ifnets ?s0 p = Some ?ifn0" by simp
    have "\<not> (\<forall>k\<in>{1..65535}. \<not> slot_free ?s0 k)"
      using i fi by (auto simp: slot_free_def)
    then obtain j where j: "1 \<le> j" "j \<le> 65535" and free: "slot_free ?s0 j"
      and least: "\<forall>k\<in>{1..<j}. \<not> slot_free ?s0 k"
      by (rule least_free_exists)
    from ifindex_alloc_result [OF wf0 p0 j free least] obtain s1 where
      a: "ifindex_alloc p ?s0 = Some (Inr s1)"
      and h: "ifnets s1 = (ifnets ?s0)(p \<mapsto> ?ifn0\<lparr>if_index := of_nat j\<rparr>)"
      and jl: "j < length (V_ifindex_table s1)" and tj: "V_ifindex_table s1 ! j = Ptr p"
      and jh: "int j \<le> V_if_index s1"
      by blast
    let ?ifn2 = "?ifn0\<lparr>if_index := of_nat j, if_refcount := 1\<rparr>"
    let ?ifn3 = "?ifn2\<lparr>if_addr := Some (if_attach_ifaddr ?ifn2 ?ifdrv (ifat_lla ?ifat1))\<rparr>"
    let ?s2 = "s1\<lparr>ifnets := (ifnets s1)(p \<mapsto> ?ifn3)\<rparr>"
    have uj: "unat (of_nat j :: 16 word) = j" using j by (simp add: unat_of_nat_index)
    have ai: "if_attach_internal p ?s2 = Inr (?s2\<lparr>V_ifnet := V_ifnet ?s2 @ [p]\<rparr>)"
    proof (rule if_attach_internal_ok [where ifn = ?ifn3])
      show "ifnets ?s2 p = Some ?ifn3" by simp
      show "if_index ?ifn3 \<noteq> 0" using of_nat_index_nonzero [OF j] by simp
      show "uint (if_index ?ifn3) \<le> V_if_index ?s2" using jh uj by (simp add: uint_nat)
      show "unat (if_index ?ifn3) < length (V_ifindex_table ?s2)" using jl uj by simp
      show "V_ifindex_table ?s2 ! unat (if_index ?ifn3) = Ptr p" using tj uj by simp
    qed
    have h1: "ifnets s1 p = Some (?ifn0\<lparr>if_index := of_nat j\<rparr>)" using h by simp
    have "if_attach T U p ifat drv s
            = Some (Inr (Ptr p, ?ifat1, ?ifdrv, ?s2\<lparr>V_ifnet := V_ifnet ?s2 @ [p]\<rparr>))"
      unfolding if_attach_def Let_def case_prod_beta
      using False by (simp only: if_False a h1 ai option.case sum.case simp_thms)
    then show ?thesis by blast
  qed
qed


lemma index_range:
  assumes "(idx :: 16 word) \<noteq> 0"
  shows "1 \<le> unat idx" and "unat idx \<le> 65535"
proof -
  from assms have "unat idx \<noteq> 0" by (simp add: word_unat_eq_iff)
  then show "1 \<le> unat idx" by simp
  show "unat idx \<le> 65535" using unsigned_less [of idx, where 'a = nat] by simp
qed

lemma if_attach_explicit:
  assumes inv: "registry_inv s" and fresh: "p \<notin> dom (ifnets s)"
    and nc: "\<not> ifdrv_clone (if_attach_bless T drv)"
    and j: "1 \<le> j" "j \<le> 65535" and free: "slot_free s j"
    and least: "\<forall>k\<in>{1..<j}. \<not> slot_free s k"
    and below: "j < length (V_ifindex_table s)"
  shows "if_attach T U p ifat drv s
    = Some (Inr (Ptr p, ifat, if_attach_bless T drv,
        s\<lparr>V_if_index := max (V_if_index s) (int j),
           V_ifindex_table := (V_ifindex_table s)[j := Ptr p],
           V_ifnet := V_ifnet s @ [p],
           ifnets := (ifnets s)(p \<mapsto> attached ifat (if_attach_bless T drv) (of_nat j))\<rparr>))"
proof -
  let ?ifdrv = "if_attach_bless T drv"
  let ?ifn0 = "ifnet_zero\<lparr>if_flags := ucast (ifat_flags ifat),
                                if_dunit := ifat_dunit ifat,
                                if_xname := attach_name ifat ?ifdrv\<rparr>"
  let ?s0 = "s\<lparr>ifnets := (ifnets s)(p \<mapsto> ?ifn0)\<rparr>"
  let ?s1 = "?s0\<lparr>V_if_index := max (V_if_index ?s0) (int j),
                 V_ifindex_table := (V_ifindex_table ?s0)[j := Ptr p],
                 ifnets := (ifnets ?s0)(p \<mapsto> ?ifn0\<lparr>if_index := of_nat j\<rparr>)\<rparr>"
  have inv0: "registry_inv ?s0"
    by (rule registry_inv_heap_fresh [OF inv fresh])
  then have wf0: "table_wf ?s0" by (simp add: registry_inv_def)
  have p0: "ifnets ?s0 p = Some ?ifn0" by simp
  have free0: "slot_free ?s0 j" using free by (simp add: slot_free_def)
  have least0: "\<forall>k\<in>{1..<j}. \<not> slot_free ?s0 k" using least by (simp add: slot_free_def)
  have below0: "j < length (V_ifindex_table ?s0)" using below by simp
  have a: "ifindex_alloc p ?s0 = Some (Inr ?s1)"
    by (rule ifindex_alloc_below_limit [OF wf0 p0 j free0 least0 below0])
  let ?ifn2 = "?ifn0\<lparr>if_index := of_nat j, if_refcount := 1\<rparr>"
  let ?ifn3 = "?ifn2\<lparr>if_addr := Some (if_attach_ifaddr ?ifn2 ?ifdrv (ifat_lla ifat))\<rparr>"
  let ?s2 = "?s1\<lparr>ifnets := (ifnets ?s1)(p \<mapsto> ?ifn3)\<rparr>"
  have uj: "unat (of_nat j :: 16 word) = j" using j by (simp add: unat_of_nat_index)
  have ai: "if_attach_internal p ?s2 = Inr (?s2\<lparr>V_ifnet := V_ifnet ?s2 @ [p]\<rparr>)"
  proof (rule if_attach_internal_ok [where ifn = ?ifn3])
    show "ifnets ?s2 p = Some ?ifn3" by simp
    show "if_index ?ifn3 \<noteq> 0" using of_nat_index_nonzero [OF j] by simp
    show "uint (if_index ?ifn3) \<le> V_if_index ?s2" using uj by (simp add: uint_nat)
    show "unat (if_index ?ifn3) < length (V_ifindex_table ?s2)" using below uj by simp
    show "V_ifindex_table ?s2 ! unat (if_index ?ifn3) = Ptr p" using below uj by simp
  qed
  have h1: "ifnets ?s1 p = Some (?ifn0\<lparr>if_index := of_nat j\<rparr>)" by simp
  have id: "ifat\<lparr>ifat_dunit := ifat_dunit ifat\<rparr> = ifat" by simp
  have att: "if_attach T U p ifat drv s
          = Some (Inr (Ptr p, ifat, ?ifdrv, ?s2\<lparr>V_ifnet := V_ifnet ?s2 @ [p]\<rparr>))"
    unfolding if_attach_def Let_def case_prod_beta
    using nc by (simp only: if_False a h1 ai option.case sum.case simp_thms fst_conv snd_conv id)
  show ?thesis
    unfolding att by (simp add: attached_def Let_def)
qed

lemma vnet_if_init_eq:
  "vnet_if_init = \<lparr>V_if_index = 0, V_if_indexlim = 16, V_ifindex_table = replicate 16 NULL,
      V_ifnet = [], ifnets = Map.empty\<rparr>"
  by (simp add: vnet_if_init_def vnet0_def if_grow_def)

lemma drv_blessed_flags: "ifdrv_flags drv_blessed AND IFDRV_BLESSED \<noteq> 0"
  by (simp add: drv_blessed_def if_attach_bless_def ifdriver_bless_def drv_ex_def ift_ex_def
      iftype_find_def IFDRV_BLESSED_def Let_def)

lemma drv_blessed_again: "if_attach_bless [ift_ex] drv_blessed = drv_blessed"
  using drv_blessed_flags by (simp add: if_attach_bless_def)

lemma drv_blessed_clone: "\<not> ifdrv_clone drv_blessed"
  by (simp add: drv_blessed_def if_attach_bless_def ifdriver_bless_def drv_ex_def ift_ex_def
      iftype_find_def IFDRV_BLESSED_def Let_def bless_copy_def)

lemma attach_first:
  "if_attach [ift_ex] no_units 1 (ifat_named nm) drv_ex vnet_if_init
     = Some (Inr (Ptr 1, ifat_named nm, drv_blessed, vnet_one nm))"
proof -
  have fresh: "1 \<notin> dom (ifnets vnet_if_init)" by (simp add: vnet_if_init_eq)
  have nc: "\<not> ifdrv_clone (if_attach_bless [ift_ex] drv_ex)"
    using drv_blessed_clone by (simp add: drv_blessed_def)
  have free: "slot_free vnet_if_init 1" by (simp add: slot_free_def vnet_if_init_eq)
  have least: "\<forall>k\<in>{1..<1::nat}. \<not> slot_free vnet_if_init k" by simp
  have below: "1 < length (V_ifindex_table vnet_if_init)" by (simp add: vnet_if_init_eq)
  have "if_attach [ift_ex] no_units 1 (ifat_named nm) drv_ex vnet_if_init
    = Some (Inr (Ptr 1, ifat_named nm, if_attach_bless [ift_ex] drv_ex,
        vnet_if_init\<lparr>V_if_index := max (V_if_index vnet_if_init) (int 1),
           V_ifindex_table := (V_ifindex_table vnet_if_init)[1 := Ptr 1],
           V_ifnet := V_ifnet vnet_if_init @ [1],
           ifnets := (ifnets vnet_if_init)
             (1 \<mapsto> attached (ifat_named nm) (if_attach_bless [ift_ex] drv_ex) (of_nat 1))\<rparr>))"
    by (rule if_attach_explicit [OF registry_inv_init fresh nc _ _ free least below]) simp_all
  then show ?thesis
    by (simp add: vnet_if_init_eq vnet_one_def drv_blessed_def eval_nat_numeral)
qed

lemma vnet_one_inv: "registry_inv (vnet_one nm)"
proof -
  have fresh: "1 \<notin> dom (ifnets vnet_if_init)" by (simp add: vnet_if_init_eq)
  from if_attach_inv [OF registry_inv_init fresh attach_first] show ?thesis by blast
qed

lemma attach_second:
  "if_attach [ift_ex] no_units 2 (ifat_named nm2) drv_blessed (vnet_one nm1)
     = Some (Inr (Ptr 2, ifat_named nm2, drv_blessed, vnet_two nm1 nm2))"
proof -
  have fresh: "2 \<notin> dom (ifnets (vnet_one nm1))" by (simp add: vnet_one_def)
  have nc: "\<not> ifdrv_clone (if_attach_bless [ift_ex] drv_blessed)"
    using drv_blessed_clone by (simp add: drv_blessed_again)
  have free: "slot_free (vnet_one nm1) 2" by (simp add: slot_free_def vnet_one_def)
  have least: "\<forall>k\<in>{1..<2::nat}. \<not> slot_free (vnet_one nm1) k"
    by (simp add: slot_free_def vnet_one_def)
  have below: "2 < length (V_ifindex_table (vnet_one nm1))" by (simp add: vnet_one_def)
  have "if_attach [ift_ex] no_units 2 (ifat_named nm2) drv_blessed (vnet_one nm1)
    = Some (Inr (Ptr 2, ifat_named nm2, if_attach_bless [ift_ex] drv_blessed,
        (vnet_one nm1)\<lparr>V_if_index := max (V_if_index (vnet_one nm1)) (int 2),
           V_ifindex_table := (V_ifindex_table (vnet_one nm1))[2 := Ptr 2],
           V_ifnet := V_ifnet (vnet_one nm1) @ [2],
           ifnets := (ifnets (vnet_one nm1))
             (2 \<mapsto> attached (ifat_named nm2) (if_attach_bless [ift_ex] drv_blessed) (of_nat 2))\<rparr>))"
    by (rule if_attach_explicit [OF vnet_one_inv fresh nc _ _ free least below]) simp_all
  then show ?thesis
    by (simp add: vnet_one_def vnet_two_def drv_blessed_again eval_nat_numeral)
qed

lemma vnet_two_reachable: "reachable (vnet_two nm1 nm2)"
proof -
  have f1: "1 \<notin> dom (ifnets vnet_if_init)" by (simp add: vnet_if_init_eq)
  have r1: "reachable (vnet_one nm1)"
    by (rule reachable.attach [OF reachable.init f1 attach_first])
  have f2: "2 \<notin> dom (ifnets (vnet_one nm1))" by (simp add: vnet_one_def)
  show ?thesis
    by (rule reachable.attach [OF r1 f2 attach_second])
qed

text \<open>
  C1. In every state that attaches, detaches of attached interfaces and reference-taking
  lookups lead to, every interface on \<^verbatim>\<open>V_ifnet\<close> has an index that is not zero and
  that no other interface on \<^verbatim>\<open>V_ifnet\<close> has. Detaching it succeeds and frees the
  slot of its index, and an attach that follows returns and, if it attaches an
  interface, gives it the freed index or a smaller free one. (An attach for which no
  index up to 65535 is left does not get here: \<^verbatim>\<open>if_attach_internal\<close> panics.)
\<close>

theorem live_interfaces_have_unique_index:
  assumes "reachable s"
  shows "\<forall>p\<in>set (V_ifnet s). \<exists>ifn. ifnets s p = Some ifn \<and> if_index ifn \<noteq> 0
      \<and> (\<forall>q\<in>set (V_ifnet s). \<forall>ifq. ifnets s q = Some ifq \<and> if_index ifq = if_index ifn
            \<longrightarrow> q = p)
      \<and> (\<exists>s1. if_detach p s = Inr s1 \<and> reachable s1 \<and> p \<notin> set (V_ifnet s1)
            \<and> slot_free s1 (unat (if_index ifn))
            \<and> (\<forall>T U q ifat drv. q \<notin> dom (ifnets s1) \<longrightarrow>
                  (\<exists>r a d s2. if_attach T U q ifat drv s1 = Some (Inr (r, a, d, s2))
                     \<and> (r \<noteq> NULL \<longrightarrow>
                          (\<exists>ifq. ifnets s2 q = Some ifq \<and> if_index ifq \<noteq> 0
                             \<and> if_index ifq \<le> if_index ifn)))))"
proof
  fix p assume live: "p \<in> set (V_ifnet s)"
  have inv: "registry_inv s" by (rule reachable_inv [OF assms])
  from if_detach_inv [OF inv live] obtain s1 ifn where
    hp: "ifnets s p = Some ifn" and d: "if_detach p s = Inr s1" and inv1: "registry_inv s1"
    and v1: "V_ifnet s1 = remove1 p (V_ifnet s)" and sf: "slot_free s1 (unat (if_index ifn))"
    by blast
  from registry_invD [OF inv live] hp have nz: "if_index ifn \<noteq> 0"
    and tp: "V_ifindex_table s ! unat (if_index ifn) = Ptr p"
    by auto
  have uniq: "\<forall>q\<in>set (V_ifnet s). \<forall>ifq. ifnets s q = Some ifq \<and> if_index ifq = if_index ifn
            \<longrightarrow> q = p"
  proof (intro ballI allI impI)
    fix q ifq assume q: "q \<in> set (V_ifnet s)"
      and e: "ifnets s q = Some ifq \<and> if_index ifq = if_index ifn"
    from registry_invD [OF inv q] e have "V_ifindex_table s ! unat (if_index ifn) = Ptr q"
      by auto
    with tp show "q = p" by simp
  qed
  have r1: "reachable s1" by (rule reachable.detach [OF assms live d])
  from inv have "distinct (V_ifnet s)" by (simp add: registry_inv_def)
  then have gone: "p \<notin> set (V_ifnet s1)" unfolding v1 by simp
  have reuse: "\<exists>r a d s2. if_attach T U q ifat drv s1 = Some (Inr (r, a, d, s2))
                     \<and> (r \<noteq> NULL \<longrightarrow>
                          (\<exists>ifq. ifnets s2 q = Some ifq \<and> if_index ifq \<noteq> 0
                             \<and> if_index ifq \<le> if_index ifn))"
    if fresh: "q \<notin> dom (ifnets s1)" for T U q ifat drv
  proof -
    from if_attach_returns [OF inv1 fresh index_range [OF nz] sf]
    obtain r a d s2 where att: "if_attach T U q ifat drv s1 = Some (Inr (r, a, d, s2))"
      by blast
    have "\<exists>ifq. ifnets s2 q = Some ifq \<and> if_index ifq \<noteq> 0 \<and> if_index ifq \<le> if_index ifn"
      if "r \<noteq> NULL"
    proof -
      from if_attach_inv [OF inv1 fresh att] that obtain j ifq where
        j: "1 \<le> j" "j \<le> 65535" and least: "\<forall>k\<in>{1..<j}. \<not> slot_free s1 k"
        and h2: "ifnets s2 = (ifnets s1)(q \<mapsto> ifq)" and ix: "if_index ifq = of_nat j"
        by blast
      have "j \<le> unat (if_index ifn)"
      proof (rule ccontr)
        assume "\<not> j \<le> unat (if_index ifn)"
        with index_range [OF nz] have "unat (if_index ifn) \<in> {1..<j}" by simp
        with least sf show False by blast
      qed
      then have "if_index ifq \<le> if_index ifn"
        unfolding ix word_le_nat_alt using j by (simp add: unat_of_nat_index)
      moreover have "if_index ifq \<noteq> 0" unfolding ix by (rule of_nat_index_nonzero [OF j])
      ultimately show ?thesis using h2 by simp
    qed
    with att show ?thesis by blast
  qed
  from hp nz uniq d r1 gone sf reuse
  show "\<exists>ifn. ifnets s p = Some ifn \<and> if_index ifn \<noteq> 0
      \<and> (\<forall>q\<in>set (V_ifnet s). \<forall>ifq. ifnets s q = Some ifq \<and> if_index ifq = if_index ifn
            \<longrightarrow> q = p)
      \<and> (\<exists>s1. if_detach p s = Inr s1 \<and> reachable s1 \<and> p \<notin> set (V_ifnet s1)
            \<and> slot_free s1 (unat (if_index ifn))
            \<and> (\<forall>T U q ifat drv. q \<notin> dom (ifnets s1) \<longrightarrow>
                  (\<exists>r a d s2. if_attach T U q ifat drv s1 = Some (Inr (r, a, d, s2))
                     \<and> (r \<noteq> NULL \<longrightarrow>
                          (\<exists>ifq. ifnets s2 q = Some ifq \<and> if_index ifq \<noteq> 0
                             \<and> if_index ifq \<le> if_index ifn)))))"
    by blast
qed

theorem live_interfaces_have_unique_index_witness:
  "reachable (vnet_two ''a0'' ''b0'') \<and> V_ifnet (vnet_two ''a0'' ''b0'') = [1, 2]
   \<and> (\<exists>ifn. ifnets (vnet_two ''a0'' ''b0'') 1 = Some ifn \<and> if_index ifn \<noteq> 0
         \<and> (\<exists>s1. if_detach 1 (vnet_two ''a0'' ''b0'') = Inr s1 \<and> reachable s1
               \<and> 1 \<notin> set (V_ifnet s1) \<and> slot_free s1 (unat (if_index ifn))))"
proof -
  have v: "V_ifnet (vnet_two ''a0'' ''b0'') = [1, 2]" by (simp add: vnet_two_def)
  from live_interfaces_have_unique_index [OF vnet_two_reachable, of "''a0''" "''b0''"] v
  have "\<exists>ifn. ifnets (vnet_two ''a0'' ''b0'') 1 = Some ifn \<and> if_index ifn \<noteq> 0
         \<and> (\<exists>s1. if_detach 1 (vnet_two ''a0'' ''b0'') = Inr s1 \<and> reachable s1
               \<and> 1 \<notin> set (V_ifnet s1) \<and> slot_free s1 (unat (if_index ifn)))"
    by fastforce
  with vnet_two_reachable v show ?thesis by blast
qed

subsection \<open>Rename\<close>

lemma attached_name: "length nm < 16 \<Longrightarrow> if_xname (attached (ifat_named nm) d idx) = nm"
  by (simp add: attached_def Let_def attach_name_def ifat_named_def strlcpy_def IFNAMSIZ_def)

lemma strncmp_eq_refl: "strncmp_eq a a n"
proof (induction a arbitrary: n)
  case Nil
  show ?case by (cases n) simp_all
next
  case (Cons x xs)
  then show ?case by (cases n) simp_all
qed

lemma ifunit_loop_finds:
  assumes "\<forall>r\<in>set ps. h r \<noteq> None" and "q \<in> set ps" and "h q = Some ifq"
    and "if_xname ifq = name"
  shows "\<exists>q'. ifunit_loop h name ps = Inr (Ptr q')"
  using assms
proof (induction ps)
  case Nil
  then show ?case by simp
next
  case (Cons a ps)
  then obtain ifa where a: "h a = Some ifa" by auto
  show ?case
  proof (cases "strncmp_eq name (if_xname ifa) IFNAMSIZ")
    case True
    with a show ?thesis by simp
  next
    case False
    with Cons.prems a have "q \<noteq> a" using strncmp_eq_refl by auto
    with Cons False a show ?thesis by simp
  qed
qed

text \<open>
  C5, as amended. When the caller is privileged and the new name has been copied in:
  if the name is not empty and is the name of an interface on \<^verbatim>\<open>V_ifnet\<close>, the
  \<^verbatim>\<open>SIOCSIFNAME\<close> request returns \<^verbatim>\<open>EEXIST\<close> and the state, with every name and every
  encoded name in it, is what it was; and a request for the empty name, on any
  interface and in any state, returns \<^verbatim>\<open>EINVAL\<close> and leaves the state as it was,
  whatever \<^verbatim>\<open>ifunit\<close> would find. Attaching "a0", then "b0", and renaming "b0" to
  "a0" is an instance.
\<close>

theorem rename_collision_rejected:
  assumes alloc: "\<forall>r\<in>set (V_ifnet s). ifnets s r \<noteq> None"
    and q: "q \<in> set (V_ifnet s)" "ifnets s q = Some ifq" "if_xname ifq = new_name"
  shows "(new_name \<noteq> [] \<longrightarrow> if_drvioctl_SIOCSIFNAME 0 (0, new_name) p s = Inr (EEXIST, s))
    \<and> if_drvioctl_SIOCSIFNAME 0 (0, []) p' s' = Inr (EINVAL, s')"
proof (rule conjI; (rule impI)?)
  assume ne: "new_name \<noteq> []"
  from ifunit_loop_finds [OF alloc q] obtain q' where "ifunit s new_name = Inr (Ptr q')"
    by (auto simp: ifunit_def)
  with ne show "if_drvioctl_SIOCSIFNAME 0 (0, new_name) p s = Inr (EEXIST, s)"
    by (simp add: if_drvioctl_SIOCSIFNAME_def Let_def)
next
  show "if_drvioctl_SIOCSIFNAME 0 (0, []) p' s' = Inr (EINVAL, s')"
    by (simp add: if_drvioctl_SIOCSIFNAME_def)
qed

theorem rename_collision_rejected_witness:
  "if_attach [ift_ex] no_units 1 (ifat_named ''a0'') drv_ex vnet_if_init
     = Some (Inr (Ptr 1, ifat_named ''a0'', drv_blessed, vnet_one ''a0''))
   \<and> if_attach [ift_ex] no_units 2 (ifat_named ''b0'') drv_blessed (vnet_one ''a0'')
     = Some (Inr (Ptr 2, ifat_named ''b0'', drv_blessed, vnet_two ''a0'' ''b0''))
   \<and> if_drvioctl_SIOCSIFNAME 0 (0, ''a0'') 2 (vnet_two ''a0'' ''b0'')
     = Inr (EEXIST, vnet_two ''a0'' ''b0'')
   \<and> if_drvioctl_SIOCSIFNAME 0 (0, []) 2 (vnet_two ''a0'' ''b0'')
     = Inr (EINVAL, vnet_two ''a0'' ''b0'')"
proof -
  have "(''a0'' \<noteq> [] \<longrightarrow> if_drvioctl_SIOCSIFNAME 0 (0, ''a0'') 2 (vnet_two ''a0'' ''b0'')
       = Inr (EEXIST, vnet_two ''a0'' ''b0''))
     \<and> if_drvioctl_SIOCSIFNAME 0 (0, []) 2 (vnet_two ''a0'' ''b0'')
       = Inr (EINVAL, vnet_two ''a0'' ''b0'')"
    by (rule rename_collision_rejected
          [where q = 1 and ifq = "attached (ifat_named ''a0'') drv_blessed 1"])
      (simp_all add: vnet_two_def attached_name)
  with attach_first attach_second show ?thesis by simp
qed

text \<open>
  The empty name is rejected with \<^verbatim>\<open>EINVAL\<close> before the lookup, also when an interface
  with an empty name is attached: \<^verbatim>\<open>if_attach\<close> accepts the empty name, \<^verbatim>\<open>ifunit\<close> finds
  the interface that carries it, and the request to give it to "b0" as well returns
  \<^verbatim>\<open>EINVAL\<close>.
\<close>

theorem rename_collision_rejected_counterexample:
  "if_attach [ift_ex] no_units 1 (ifat_named []) drv_ex vnet_if_init
     = Some (Inr (Ptr 1, ifat_named [], drv_blessed, vnet_one []))
   \<and> if_attach [ift_ex] no_units 2 (ifat_named ''b0'') drv_blessed (vnet_one [])
     = Some (Inr (Ptr 2, ifat_named ''b0'', drv_blessed, vnet_two [] ''b0''))
   \<and> ifunit (vnet_two [] ''b0'') [] = Inr (Ptr 1)
   \<and> if_drvioctl_SIOCSIFNAME 0 (0, []) 2 (vnet_two [] ''b0'') = Inr (EINVAL, vnet_two [] ''b0'')
   \<and> EINVAL \<noteq> EEXIST"
proof -
  have "ifunit (vnet_two [] ''b0'') [] = Inr (Ptr 1)
   \<and> if_drvioctl_SIOCSIFNAME 0 (0, []) 2 (vnet_two [] ''b0'') = Inr (EINVAL, vnet_two [] ''b0'')
   \<and> EINVAL \<noteq> EEXIST"
    by (simp add: if_drvioctl_SIOCSIFNAME_def ifunit_def vnet_two_def attached_name
      strncmp_eq_refl EINVAL_def EEXIST_def)
  with attach_first [of "[]"] attach_second [of "''b0''" "[]"] show ?thesis by blast
qed

subsection \<open>Interface groups\<close>

text \<open>
  The lookup by name on a list of group pointers: what a miss says about the list, and
  that a group object that is not on the list does not matter to it.
\<close>

lemma ifg_lookup_None:
  "ifg_lookup h name gs = Inr None \<Longrightarrow> g \<in> set gs \<Longrightarrow> \<exists>ifg. h g = Some ifg \<and> ifg_group ifg \<noteq> name"
  by (induction gs) (auto split: option.splits if_splits)

lemma ifg_lookup_upd:
  "g \<notin> set gs \<Longrightarrow> ifg_lookup (h(g \<mapsto> x)) name gs = ifg_lookup h name gs"
  by (induction gs) (auto split: option.splits)

lemma ifg_lookup_append:
  "ifg_lookup h name xs = Inr None \<Longrightarrow> ifg_lookup h name (xs @ ys) = ifg_lookup h name ys"
  by (induction xs) (auto split: option.splits if_splits)

lemma ifg_lookup_fresh:
  assumes "ifg_lookup h name gs = Inr None" and "g \<notin> dom h"
  shows "g \<notin> set gs"
  using ifg_lookup_None [OF assms(1), of g] assms(2) by auto

lemma remove1_append_fresh: "g \<notin> set gs \<Longrightarrow> remove1 g (gs @ [g]) = gs"
  by (induction gs) auto

lemma strlcpy_short: "length nm < IFNAMSIZ \<Longrightarrow> strlcpy nm IFNAMSIZ = nm"
  by (simp add: strlcpy_def)

text \<open>
  One \<^verbatim>\<open>if_delgroup\<close> of a member: the group object leaves \<^verbatim>\<open>V_ifg_head\<close> and is freed
  if and only if its reference count was 1.
\<close>

lemma if_delgroup_removes_iff:
  assumes "ifg_lookup (ifgroups st) name (if_groups st p) = Inr (Some g)"
    and "ifgroups st g = Some ifg" and "distinct (V_ifg_head st)"
  shows "\<exists>st'. if_delgroup p name st = Inr (0, st')
     \<and> (g \<notin> set (V_ifg_head st') \<longleftrightarrow> g \<notin> set (V_ifg_head st) \<or> ifg_refcnt ifg = 1)
     \<and> (ifgroups st' g = None \<longleftrightarrow> ifg_refcnt ifg = 1)"
  using assms by (simp add: if_delgroup_def Let_def)

text \<open>
  C8. Two interfaces join a group whose name does not end in a digit and that no list
  knows yet; the first join allocates the group object \<open>g\<close> and puts it on
  \<^verbatim>\<open>V_ifg_head\<close>, the second finds it there. After both joins the object counts 2
  references. The first leave brings the count to 1 and the object is still on
  \<^verbatim>\<open>V_ifg_head\<close>; the second leave brings it to 0, takes the object off \<^verbatim>\<open>V_ifg_head\<close>
  and frees it, and the group lists and the heap are again what they were before the
  first join. The group and change events are raised in the order of the source.
\<close>

theorem group_removed_on_last_leave:
  assumes nd: "\<not> ends_in_digit name" and len: "length name < IFNAMSIZ"
    and fresh: "g \<notin> dom (ifgroups st)"
    and n0: "ifg_lookup (ifgroups st) name (V_ifg_head st) = Inr None"
    and n1: "ifg_lookup (ifgroups st) name (if_groups st p1) = Inr None"
    and n2: "ifg_lookup (ifgroups st) name (if_groups st p2) = Inr None"
    and ne: "p1 \<noteq> p2"
  shows "\<exists>st1 st2 st3 st4.
      if_addgroup True True (Some g) p1 name st = Inr (0, st1)
    \<and> if_addgroup True True mem p2 name st1 = Inr (0, st2)
    \<and> V_ifg_head st2 = V_ifg_head st @ [g]
    \<and> ifgroups st2 g = Some \<lparr>ifg_group = name, ifg_refcnt = 2, ifg_members = [p1, p2]\<rparr>
    \<and> if_delgroup p1 name st2 = Inr (0, st3)
    \<and> V_ifg_head st3 = V_ifg_head st @ [g]
    \<and> ifgroups st3 g = Some \<lparr>ifg_group = name, ifg_refcnt = 1, ifg_members = [p2]\<rparr>
    \<and> if_delgroup p2 name st3 = Inr (0, st4)
    \<and> g \<notin> set (V_ifg_head st4) \<and> ifgroups st4 g = None
    \<and> V_ifg_head st4 = V_ifg_head st \<and> ifgroups st4 = ifgroups st \<and> if_groups st4 = if_groups st
    \<and> group_events st4 = group_events st
        @ [Group_attach g, Group_change name, Group_change name, Group_change name,
           Group_detach g, Group_change name]"
proof -
  have g0: "g \<notin> set (V_ifg_head st)" by (rule ifg_lookup_fresh [OF n0 fresh])
  have g1: "g \<notin> set (if_groups st p1)" by (rule ifg_lookup_fresh [OF n1 fresh])
  have g2: "g \<notin> set (if_groups st p2)" by (rule ifg_lookup_fresh [OF n2 fresh])
  have nm: "strlcpy name IFNAMSIZ = name" by (rule strlcpy_short [OF len])
  let ?G1 = "\<lparr>ifg_group = name, ifg_refcnt = 1, ifg_members = [p1]\<rparr>"
  let ?G2 = "\<lparr>ifg_group = name, ifg_refcnt = 2, ifg_members = [p1, p2]\<rparr>"
  let ?G3 = "\<lparr>ifg_group = name, ifg_refcnt = 1, ifg_members = [p2]\<rparr>"
  let ?st1 = "st\<lparr>V_ifg_head := V_ifg_head st @ [g],
                 ifgroups := (ifgroups st)(g \<mapsto> ?G1),
                 if_groups := (if_groups st)(p1 := if_groups st p1 @ [g]),
                 group_events := group_events st @ [Group_attach g, Group_change name]\<rparr>"
  let ?st2 = "?st1\<lparr>ifgroups := (ifgroups st)(g \<mapsto> ?G2),
                  if_groups := (if_groups ?st1)(p2 := if_groups st p2 @ [g]),
                  group_events := group_events ?st1 @ [Group_change name]\<rparr>"
  let ?st3 = "?st2\<lparr>ifgroups := (ifgroups st)(g \<mapsto> ?G3),
                  if_groups := (if_groups ?st2)(p1 := if_groups st p1),
                  group_events := group_events ?st2 @ [Group_change name]\<rparr>"
  let ?st4 = "?st3\<lparr>V_ifg_head := V_ifg_head st, ifgroups := ifgroups st,
                  if_groups := (if_groups ?st3)(p2 := if_groups st p2),
                  group_events := group_events ?st3 @ [Group_detach g, Group_change name]\<rparr>"
  have a1: "if_addgroup True True (Some g) p1 name st = Inr (0, ?st1)"
    using nd n0 n1 by (simp add: if_addgroup_def nm)
  have l2: "ifg_lookup (ifgroups ?st1) name (if_groups ?st1 p2) = Inr None"
    using ne n2 g2 by (simp add: ifg_lookup_upd)
  have l2': "ifg_lookup (ifgroups ?st1) name (V_ifg_head ?st1) = Inr (Some g)"
    using n0 g0 by (simp add: ifg_lookup_append ifg_lookup_upd)
  have a2: "if_addgroup True True mem p2 name ?st1 = Inr (0, ?st2)"
    unfolding if_addgroup_def using nd l2 l2' ne by simp
  have l3: "ifg_lookup (ifgroups ?st2) name (if_groups ?st2 p1) = Inr (Some g)"
    using ne n1 g1 by (simp add: ifg_lookup_append ifg_lookup_upd)
  have d1: "if_delgroup p1 name ?st2 = Inr (0, ?st3)"
    unfolding if_delgroup_def using l3 ne g1 by (simp add: remove1_append_fresh Let_def)
  have l4: "ifg_lookup (ifgroups ?st3) name (if_groups ?st3 p2) = Inr (Some g)"
    using ne n2 g2 by (simp add: ifg_lookup_append ifg_lookup_upd)
  have hz: "(ifgroups st)(g := None) = ifgroups st" using fresh by auto
  have d2: "if_delgroup p2 name ?st3 = Inr (0, ?st4)"
    unfolding if_delgroup_def using l4 ne g2 g0 by (simp add: remove1_append_fresh Let_def hz)
  have e4: "if_groups ?st4 = if_groups st" using ne by (auto simp: fun_eq_iff)
  show ?thesis
    apply (rule exI [of _ ?st1], rule exI [of _ ?st2], rule exI [of _ ?st3], rule exI [of _ ?st4])
    apply (simp only: a1 a2 d1 d2 simp_thms)
    using g0 fresh e4 apply (simp add: domIff)
    done
qed

text \<open>
  The group "lan" on interfaces 1 and 2, from the state with no group; "lan1" is refused
  with \<^verbatim>\<open>EINVAL\<close>.
\<close>

theorem group_removed_on_last_leave_witness:
  "\<not> ends_in_digit ''lan'' \<and> length ''lan'' < IFNAMSIZ \<and> 100 \<notin> dom (ifgroups gstate0)
   \<and> ifg_lookup (ifgroups gstate0) ''lan'' (V_ifg_head gstate0) = Inr None
   \<and> ifg_lookup (ifgroups gstate0) ''lan'' (if_groups gstate0 1) = Inr None
   \<and> ifg_lookup (ifgroups gstate0) ''lan'' (if_groups gstate0 2) = Inr None
   \<and> (\<exists>st1 st2 st3 st4.
      if_addgroup True True (Some 100) 1 ''lan'' gstate0 = Inr (0, st1)
    \<and> if_addgroup True True None 2 ''lan'' st1 = Inr (0, st2)
    \<and> V_ifg_head st2 = [100]
    \<and> ifgroups st2 100 = Some \<lparr>ifg_group = ''lan'', ifg_refcnt = 2, ifg_members = [1, 2]\<rparr>
    \<and> if_delgroup 1 ''lan'' st2 = Inr (0, st3)
    \<and> V_ifg_head st3 = [100]
    \<and> ifgroups st3 100 = Some \<lparr>ifg_group = ''lan'', ifg_refcnt = 1, ifg_members = [2]\<rparr>
    \<and> if_delgroup 2 ''lan'' st3 = Inr (0, st4)
    \<and> V_ifg_head st4 = [] \<and> ifgroups st4 100 = None)
   \<and> if_addgroup True True (Some 100) 1 ''lan1'' gstate0 = Inr (EINVAL, gstate0)"
proof -
  have h: "\<not> ends_in_digit ''lan''" "length ''lan'' < IFNAMSIZ" "100 \<notin> dom (ifgroups gstate0)"
    "ifg_lookup (ifgroups gstate0) ''lan'' (V_ifg_head gstate0) = Inr None"
    "ifg_lookup (ifgroups gstate0) ''lan'' (if_groups gstate0 1) = Inr None"
    "ifg_lookup (ifgroups gstate0) ''lan'' (if_groups gstate0 2) = Inr None"
    "(1::nat) \<noteq> 2"
    by (simp_all add: ends_in_digit_def IFNAMSIZ_def gstate0_def)
  have e: "if_addgroup True True (Some 100) 1 ''lan1'' gstate0 = Inr (EINVAL, gstate0)"
    by (simp add: if_addgroup_def ends_in_digit_def)
  from group_removed_on_last_leave [OF h, of None] obtain st1 st2 st3 st4 where
    r: "if_addgroup True True (Some 100) 1 ''lan'' gstate0 = Inr (0, st1)"
      "if_addgroup True True None 2 ''lan'' st1 = Inr (0, st2)"
      "V_ifg_head st2 = V_ifg_head gstate0 @ [100]"
      "ifgroups st2 100 = Some \<lparr>ifg_group = ''lan'', ifg_refcnt = 2, ifg_members = [1, 2]\<rparr>"
      "if_delgroup 1 ''lan'' st2 = Inr (0, st3)"
      "V_ifg_head st3 = V_ifg_head gstate0 @ [100]"
      "ifgroups st3 100 = Some \<lparr>ifg_group = ''lan'', ifg_refcnt = 1, ifg_members = [2]\<rparr>"
      "if_delgroup 2 ''lan'' st3 = Inr (0, st4)"
      "V_ifg_head st4 = V_ifg_head gstate0" "ifgroups st4 100 = None"
    by blast
  have "V_ifg_head gstate0 = []" by (simp add: gstate0_def)
  with r h e show ?thesis by auto
qed

subsection \<open>Multicast memberships\<close>

text \<open>
  A copy of a well-formed address compares equal to the address it was copied from, by
  the comparison of its family.
\<close>

lemma sa_byte_in: "i < length sa \<Longrightarrow> sa_byte sa i = Inr (unat (sa ! i))"
  by (simp add: sa_byte_def)

lemma bcmp_same_prefix:
  assumes "o1 + n \<le> m" and "m \<le> length sa"
  shows "bcmp (take m sa) o1 sa o1 n = Inr 0"
proof -
  have "take n (drop o1 (take m sa)) = take n (drop o1 sa)"
    using assms by (simp add: drop_take min_def)
  moreover have "length (take n (drop o1 sa)) = n"
    using assms by simp
  ultimately show ?thesis by (simp add: bcmp_def Let_def)
qed

lemma sa_equal_copy:
  assumes "1 \<le> unat (sa ! 0)" and "unat (sa ! 0) \<le> length sa"
  shows "sa_equal (take (unat (sa ! 0)) sa) sa = Inr True"
proof -
  let ?n = "unat (sa ! 0)"
  have b: "sa_byte (take ?n sa) 0 = Inr ?n"
    using assms by (simp add: sa_byte_def)
  have "bcmp (take ?n sa) 0 sa 0 ?n = Inr 0"
    by (rule bcmp_same_prefix) (use assms in simp_all)
  with b show ?thesis by (simp add: sa_equal_def)
qed

lemma sa_dl_equal_copy:
  assumes "8 + unat (sa ! 5) + unat (sa ! 6) \<le> unat (sa ! 0)" and "unat (sa ! 0) \<le> length sa"
  shows "sa_dl_equal (take (unat (sa ! 0)) sa) sa = Inr True"
proof -
  let ?n = "unat (sa ! 0)"
  have b: "sa_byte (take ?n sa) 0 = Inr ?n" "sa_byte sa 0 = Inr ?n"
    "sa_byte (take ?n sa) 5 = Inr (unat (sa ! 5))" "sa_byte sa 5 = Inr (unat (sa ! 5))"
    "sa_byte (take ?n sa) 6 = Inr (unat (sa ! 6))"
  proof -
    from assms have "8 \<le> ?n" "0 < length sa" "5 < length sa" "6 < length sa" by linarith+
    then show "sa_byte (take ?n sa) 0 = Inr ?n" "sa_byte sa 0 = Inr ?n"
      "sa_byte (take ?n sa) 5 = Inr (unat (sa ! 5))" "sa_byte sa 5 = Inr (unat (sa ! 5))"
      "sa_byte (take ?n sa) 6 = Inr (unat (sa ! 6))"
      using assms(2) by (auto simp: sa_byte_def)
  qed
  have "bcmp (take ?n sa) (8 + unat (sa ! 5)) sa (8 + unat (sa ! 5)) (unat (sa ! 6)) = Inr 0"
    by (rule bcmp_same_prefix) (use assms in simp_all)
  with b show ?thesis by (simp add: sa_dl_equal_def LLADDR_def)
qed

lemma if_findmulti_test_copy:
  assumes "sockaddr_ok sa"
  shows "if_findmulti_test (take (unat (sa ! 0)) sa) sa = Inr True"
proof -
  from assms have f: "sa_byte sa 1 = Inr (unat (sa ! 1))"
    by (simp add: sockaddr_ok_def sa_byte_def)
  show ?thesis
  proof (cases "unat (sa ! 1) = AF_LINK")
    case True
    with assms have "sa_dl_equal (take (unat (sa ! 0)) sa) sa = Inr True"
      by (intro sa_dl_equal_copy) (simp_all add: sockaddr_ok_def)
    with True f show ?thesis by (simp add: if_findmulti_test_def)
  next
    case False
    from assms have "sa_equal (take (unat (sa ! 0)) sa) sa = Inr True"
      by (intro sa_equal_copy) (simp_all add: sockaddr_ok_def)
    with False f show ?thesis by (simp add: if_findmulti_test_def)
  qed
qed

lemma if_findmulti_loop_None_iff:
  "if_findmulti_loop h sa L = Inr None \<longleftrightarrow>
   (\<forall>x\<in>set L. \<exists>m. h x = Some m \<and> if_findmulti_test (ifma_addr m) sa = Inr False)"
  by (induction L) (auto split: option.splits sum.splits if_splits)

lemma if_findmulti_loop_first:
  assumes "\<forall>y\<in>set pre. \<exists>my. h y = Some my \<and> if_findmulti_test (ifma_addr my) sa = Inr False"
    and "h x = Some m" and "if_findmulti_test (ifma_addr m) sa = Inr True"
  shows "if_findmulti_loop h sa (pre @ x # post) = Inr (Some x)"
  using assms by (induction pre) auto

lemma if_findmulti_loop_Some_mem:
  "if_findmulti_loop h sa L = Inr (Some b) \<Longrightarrow> b \<in> set L \<and> b \<in> dom h"
  by (induction L) (auto split: option.splits sum.splits if_splits)

lemma if_findmulti_loop_upd:
  "a \<notin> set L \<Longrightarrow> if_findmulti_loop (h(a \<mapsto> m)) sa L = if_findmulti_loop h sa L"
  by (induction L) (auto split: option.splits sum.splits)

lemma if_allocmulti_ok:
  assumes "sockaddr_ok sa" and "\<forall>ll. llsa = Some ll \<longrightarrow> sockaddr_ok ll"
  shows "if_allocmulti (Some a, True, True) p sa llsa st =
    Inr (Some a, st\<lparr>ifmas := (ifmas st)
      (a \<mapsto> \<lparr>ifma_addr = take (unat (sa ! 0)) sa,
              ifma_lladdr = map_option (\<lambda>ll. take (unat (ll ! 0)) ll) llsa,
              ifma_ifp = Some p, ifma_refcount = 1, ifma_llifma = None\<rparr>)\<rparr>)"
  using assms
  by (cases llsa) (auto simp: if_allocmulti_def sockaddr_ok_def sa_byte_def)

text \<open>
  Joins and leaves of an address whose membership is at the head of the list, in terms
  of the number of references the membership counts.
\<close>

lemma with_refcount_eq:
  "ifmas st1 a = Some m \<Longrightarrow>
   with_refcount a c st1 = st1\<lparr>ifmas := (ifmas st1)(a \<mapsto> m\<lparr>ifma_refcount := c\<rparr>)\<rparr>"
  by (simp add: with_refcount_def)

lemma with_refcount_same:
  "ifmas st1 a = Some m \<Longrightarrow> ifma_refcount m = c \<Longrightarrow> with_refcount a c st1 = st1"
  by (auto simp: with_refcount_def map_upd_triv)

lemma if_findmulti_head:
  assumes hd: "if_multiaddrs st1 p = a # L" and ha: "ifmas st1 a = Some m"
    and ad: "if_findmulti_test (ifma_addr m) sa = Inr True"
  shows "if_findmulti (with_refcount a c st1) p sa = Inr (Some a)"
  unfolding if_findmulti_def with_refcount_eq [OF ha]
  by (simp add: hd ad)

lemma if_addmulti_present:
  assumes hd: "if_multiaddrs st1 p = a # L" and ha: "ifmas st1 a = Some m"
    and ad: "if_findmulti_test (ifma_addr m) sa = Inr True"
  shows "if_addmulti resolve mem1 mem2 p sa (with_refcount a c st1)
    = Inr (0, Some a, with_refcount a (c + 1) st1)"
  unfolding if_addmulti_def if_findmulti_head [OF hd ha ad]
  by (simp add: with_refcount_eq [OF ha])

lemma joins_present:
  assumes hd: "if_multiaddrs st1 p = a # L" and ha: "ifmas st1 a = Some m"
    and ad: "if_findmulti_test (ifma_addr m) sa = Inr True"
  shows "joins resolve mem1 mem2 p sa n (with_refcount a c st1)
    = Inr (replicate n 0, with_refcount a (c + int n) st1)"
proof (induction n arbitrary: c mem1 mem2)
  case 0
  show ?case by simp
next
  case (Suc n)
  have "c + 1 + int n = c + int (Suc n)" by simp
  with Suc [of "(None, False, False)" "(None, False, False)" "c + 1"] show ?case
    by (simp add: if_addmulti_present [OF hd ha ad])
qed

lemma if_delmulti_not_last:
  assumes hd: "if_multiaddrs st1 p = a # L" and ha: "ifmas st1 a = Some m"
    and ad: "if_findmulti_test (ifma_addr m) sa = Inr True" and c: "1 < c"
  shows "if_delmulti_locked a False (with_refcount a c st1) = Inr (0, with_refcount a (c - 1) st1)"
    and "if_delmulti p sa (with_refcount a c st1) = Inr (0, with_refcount a (c - 1) st1)"
proof -
  let ?s = "with_refcount a c st1"
  show l: "if_delmulti_locked a False ?s = Inr (0, with_refcount a (c - 1) st1)"
    using c unfolding if_delmulti_locked_def by (simp add: with_refcount_eq [OF ha] Let_def)
  show "if_delmulti p sa ?s = Inr (0, with_refcount a (c - 1) st1)"
    by (simp add: if_delmulti_def if_findmulti_head [OF hd ha ad] l)
qed

lemma leaves_not_last:
  assumes hd: "if_multiaddrs st1 p = a # L" and ha: "ifmas st1 a = Some m"
    and ad: "if_findmulti_test (ifma_addr m) sa = Inr True"
  shows "int k < c \<Longrightarrow> leaves p sa k (with_refcount a c st1)
    = Inr (replicate k 0, with_refcount a (c - int k) st1)"
proof (induction k arbitrary: c)
  case 0
  show ?case by simp
next
  case (Suc k)
  from Suc.prems have c: "1 < c" and k: "int k < c - 1" by simp_all
  have "c - 1 - int k = c - int (Suc k)" by simp
  with Suc.IH [OF k] show ?case
    by (simp add: if_delmulti_not_last(2) [OF hd ha ad c])
qed

lemma if_delmulti_last:
  assumes hd: "if_multiaddrs st1 p = a # L" and ha: "ifmas st1 a = Some m"
    and ad: "if_findmulti_test (ifma_addr m) sa = Inr True"
    and rc: "ifma_refcount m = 1" and ip: "ifma_ifp m = Some p"
    and aL: "a \<notin> set L"
    and ll: "ifma_llifma m = None
       \<or> (\<exists>b mb. ifma_llifma m = Some b \<and> b \<noteq> a \<and> ifmas st1 b = Some mb)"
  shows "\<exists>s' st'. if_delmulti_locked a False st1 = Inr (1, s')
     \<and> if_delmulti p sa st1 = Inr (0, st')
     \<and> drv_ioctls st' = drv_ioctls st1 @ [SIOCDELMULTI]
     \<and> a \<notin> dom (ifmas st') \<and> a \<notin> set (if_multiaddrs st' p)"
proof -
  have f: "if_findmulti st1 p sa = Inr (Some a)"
    unfolding if_findmulti_def by (simp add: hd ha ad)
  have r: "a \<notin> set (remove1 x L)" for x using aL by (auto dest: notin_set_remove1)
  from ll obtain s' where l: "if_delmulti_locked a False st1 = Inr (1, s')"
    and d: "drv_ioctls s' = drv_ioctls st1" and h: "a \<notin> dom (ifmas s')"
    and n: "a \<notin> set (if_multiaddrs s' p)"
  proof
    assume n: "ifma_llifma m = None"
    show ?thesis
      by (rule that [of "if_freemulti a (st1\<lparr>ifmas := (ifmas st1)(a \<mapsto> m\<lparr>ifma_refcount := 0\<rparr>),
           if_multiaddrs := (if_multiaddrs st1)(p := L)\<rparr>)"])
        (simp_all add: if_delmulti_locked_def ha rc ip n Let_def if_freemulti_def hd aL)
  next
    assume "\<exists>b mb. ifma_llifma m = Some b \<and> b \<noteq> a \<and> ifmas st1 b = Some mb"
    then obtain b mb where b: "ifma_llifma m = Some b" "b \<noteq> a" "ifmas st1 b = Some mb"
      by blast
    show ?thesis
    proof (cases "ifma_refcount mb - 1 = 0")
      case True
      show ?thesis
        by (rule that [of "if_freemulti a (if_freemulti b
             (st1\<lparr>ifmas := (ifmas st1)(a \<mapsto> m\<lparr>ifma_refcount := 0\<rparr>,
                                        b \<mapsto> mb\<lparr>ifma_refcount := 0\<rparr>)\<rparr>)
             \<lparr>if_multiaddrs := (if_multiaddrs st1)(p := remove1 b L)\<rparr>)"])
          (use b True r in \<open>simp_all add: if_delmulti_locked_def ha rc ip Let_def if_freemulti_def hd\<close>)
    next
      case False
      show ?thesis
        by (rule that [of "if_freemulti a
             (st1\<lparr>ifmas := (ifmas st1)(a \<mapsto> m\<lparr>ifma_refcount := 0\<rparr>,
                    b \<mapsto> mb\<lparr>ifma_refcount := ifma_refcount mb - 1\<rparr>),
                  if_multiaddrs := (if_multiaddrs st1)(p := L)\<rparr>)"])
          (use b False aL in \<open>simp_all add: if_delmulti_locked_def ha rc ip Let_def if_freemulti_def hd\<close>)
    qed
  qed
  show ?thesis
    apply (rule exI [of _ s'], rule exI [of _ "s'\<lparr>drv_ioctls := drv_ioctls s' @ [SIOCDELMULTI]\<rparr>"])
    apply (simp add: if_delmulti_def f l d h n)
    done
qed

lemma if_addmulti_existing:
  assumes pre: "\<forall>y\<in>set pre. \<exists>my. ifmas s y = Some my
      \<and> if_findmulti_test (ifma_addr my) sa = Inr False"
    and l: "if_multiaddrs s p = pre @ x # post"
    and m: "ifmas s x = Some m" and t: "if_findmulti_test (ifma_addr m) sa = Inr True"
  shows "if_findmulti s p sa = Inr (Some x)"
    and "if_addmulti r m1 m2 p sa s
       = Inr (0, Some x, s\<lparr>ifmas := (ifmas s)(x \<mapsto> m\<lparr>ifma_refcount := ifma_refcount m + 1\<rparr>)\<rparr>)"
proof -
  show f: "if_findmulti s p sa = Inr (Some x)"
    unfolding if_findmulti_def l by (rule if_findmulti_loop_first [OF pre m t])
  show "if_addmulti r m1 m2 p sa s
       = Inr (0, Some x, s\<lparr>ifmas := (ifmas s)(x \<mapsto> m\<lparr>ifma_refcount := ifma_refcount m + 1\<rparr>)\<rparr>)"
    by (simp add: if_addmulti_def f m)
qed

lemma leaves_Suc:
  "leaves p sa k s = Inr (es, s2) \<Longrightarrow> if_delmulti p sa s2 = Inr (e, s3)
   \<Longrightarrow> leaves p sa (Suc k) s = Inr (es @ [e], s3)"
proof (induction k arbitrary: s es)
  case 0
  then show ?case by simp
next
  case (Suc k)
  from Suc.prems(1) obtain e1 s1 es1 where
    d: "if_delmulti p sa s = Inr (e1, s1)" and l: "leaves p sa k s1 = Inr (es1, s2)"
    and es: "es = e1 # es1"
    by (auto split: sum.splits prod.splits)
  from Suc.IH [OF l Suc.prems(2)] d es show ?case by simp
qed

text \<open>The first join of an address that has no membership.\<close>

lemma if_addmulti_first:
  assumes absent: "\<forall>x\<in>set (if_multiaddrs st p). \<exists>m. ifmas st x = Some m
      \<and> if_findmulti_test (ifma_addr m) sa = Inr False"
    and ok: "sockaddr_ok sa"
    and res: "resolve sa = (e, llsa0)" and eok: "e = 0 \<or> e = EOPNOTSUPP"
    and llok: "\<forall>ll. e = 0 \<and> llsa0 = Some ll \<longrightarrow>
      sockaddr_ok ll \<and> (\<exists>r. if_findmulti st p ll = Inr r)"
    and fa: "a \<notin> dom (ifmas st)" and fb: "b \<notin> dom (ifmas st)" and ab: "a \<noteq> b"
  shows "\<exists>st1 m L.
       if_addmulti resolve (Some a, True, True) (Some b, True, True) p sa st
         = Inr (0, Some a, st1)
     \<and> if_multiaddrs st1 p = a # L \<and> a \<notin> set L
     \<and> ifmas st1 a = Some m \<and> ifma_addr m = take (unat (sa ! 0)) sa
     \<and> ifma_refcount m = 1 \<and> ifma_ifp m = Some p
     \<and> drv_ioctls st1 = drv_ioctls st @ [SIOCADDMULTI]
     \<and> (ifma_llifma m = None
         \<or> (\<exists>b' mb. ifma_llifma m = Some b' \<and> b' \<noteq> a \<and> ifmas st1 b' = Some mb))"
proof -
  let ?L0 = "if_multiaddrs st p"
  define llsa where "llsa = (if e = EOPNOTSUPP then None else llsa0)"
  have nf: "if_findmulti st p sa = Inr None"
    unfolding if_findmulti_def if_findmulti_loop_None_iff by (rule absent)
  have indom: "\<forall>x\<in>set ?L0. x \<in> dom (ifmas st)"
    using absent by auto
  with fa fb have aL: "a \<notin> set ?L0" and bL: "b \<notin> set ?L0" by blast+
  have llsa_ok: "sockaddr_ok ll \<and> (\<exists>r. if_findmulti st p ll = Inr r)" if "llsa = Some ll" for ll
  proof -
    from that have "e \<noteq> EOPNOTSUPP" and "llsa0 = Some ll"
      by (auto simp: llsa_def split: if_splits)
    with eok llok show ?thesis by blast
  qed
  define lla where "lla = map_option (\<lambda>ll. take (unat (ll ! 0)) ll) llsa"
  let ?Ma = "\<lparr>ifma_addr = take (unat (sa ! 0)) sa, ifma_lladdr = lla,
               ifma_ifp = Some p, ifma_refcount = 1, ifma_llifma = None\<rparr>"
  let ?st1 = "st\<lparr>ifmas := (ifmas st)(a \<mapsto> ?Ma)\<rparr>"
  have ne: "\<not> (e \<noteq> EOPNOTSUPP \<and> e \<noteq> 0)" using eok by auto
  have al: "if_allocmulti (Some a, True, True) p sa llsa st = Inr (Some a, ?st1)"
    unfolding lla_def by (rule if_allocmulti_ok [OF ok]) (use llsa_ok in blast)
  have unf: "if_addmulti resolve (Some a, True, True) (Some b, True, True) p sa st =
    (case
       (case llsa of
          None \<Rightarrow> Inr (Some ?st1)
        | Some ll \<Rightarrow>
            (case if_findmulti ?st1 p ll of
               Inl e \<Rightarrow> Inl e
             | Inr None \<Rightarrow>
                 (case if_allocmulti (Some b, True, True) p ll None ?st1 of
                    Inl e \<Rightarrow> Inl e
                  | Inr (None, st2) \<Rightarrow> Inr None
                  | Inr (Some b, st2) \<Rightarrow>
                      (case ifmas st2 a of
                         None \<Rightarrow> Inl Fault
                       | Some ifma \<Rightarrow>
                           Inr (Some (st2\<lparr>if_multiaddrs := (if_multiaddrs st2)
                                            (p := b # if_multiaddrs st2 p),
                                          ifmas := (ifmas st2)
                                            (a \<mapsto> ifma\<lparr>ifma_llifma := Some b\<rparr>)\<rparr>))))
             | Inr (Some b) \<Rightarrow>
                 (case ifmas ?st1 b of
                    None \<Rightarrow> Inl Fault
                  | Some llifma \<Rightarrow>
                      let st2 = ?st1\<lparr>ifmas := (ifmas ?st1)
                                  (b \<mapsto> llifma\<lparr>ifma_refcount :=
                                                  ifma_refcount llifma + 1\<rparr>)\<rparr>
                      in (case ifmas st2 a of
                            None \<Rightarrow> Inl Fault
                          | Some ifma \<Rightarrow>
                              Inr (Some (st2\<lparr>ifmas := (ifmas st2)
                                               (a \<mapsto> ifma\<lparr>ifma_llifma := Some b\<rparr>)\<rparr>)))))) of
       Inl e \<Rightarrow> Inl e
     | Inr None \<Rightarrow> Inr (ENOMEM, None, if_freemulti a ?st1)
     | Inr (Some st3) \<Rightarrow>
         Inr (0, Some a,
              st3\<lparr>if_multiaddrs := (if_multiaddrs st3)
                     (p := a # if_multiaddrs st3 p),
                   drv_ioctls := drv_ioctls st3 @ [SIOCADDMULTI]\<rparr>))"
    unfolding if_addmulti_def nf res
    by (simp add: Let_def llsa_def [symmetric] ne al del: not_None_eq)
  show ?thesis
  proof (cases llsa)
    case None
    let ?X = "st\<lparr>ifmas := (ifmas st)(a \<mapsto> ?Ma),
                 if_multiaddrs := (if_multiaddrs st)(p := a # ?L0),
                 drv_ioctls := drv_ioctls st @ [SIOCADDMULTI]\<rparr>"
    have "if_addmulti resolve (Some a, True, True) (Some b, True, True) p sa st
        = Inr (0, Some a, ?X)"
      unfolding unf by (simp add: None)
    then show ?thesis
      apply (intro exI [of _ ?X] exI [of _ ?Ma] exI [of _ ?L0])
      apply (simp add: aL)
      done
  next
    case (Some ll)
    note sl = Some
    from llsa_ok [OF sl] obtain r where llw: "sockaddr_ok ll"
      and llf: "if_findmulti st p ll = Inr r" by blast
    have fl: "if_findmulti ?st1 p ll = Inr r"
      using aL llf by (simp add: if_findmulti_def if_findmulti_loop_upd)
    show ?thesis
    proof (cases r)
      case None
      let ?Mb = "\<lparr>ifma_addr = take (unat (ll ! 0)) ll, ifma_lladdr = None, ifma_ifp = Some p,
               ifma_refcount = 1, ifma_llifma = None\<rparr>"
      let ?Ma' = "?Ma\<lparr>ifma_llifma := Some b\<rparr>"
      let ?X = "st\<lparr>ifmas := (ifmas st)(a \<mapsto> ?Ma', b \<mapsto> ?Mb),
                 if_multiaddrs := (if_multiaddrs st)(p := a # b # ?L0),
                 drv_ioctls := drv_ioctls st @ [SIOCADDMULTI]\<rparr>"
      have alb: "if_allocmulti (Some b, True, True) p ll None st' =
          Inr (Some b, st'\<lparr>ifmas := (ifmas st')(b \<mapsto> ?Mb)\<rparr>)" for st'
        using if_allocmulti_ok [OF llw, of None b p st'] by simp
      have "if_addmulti resolve (Some a, True, True) (Some b, True, True) p sa st
          = Inr (0, Some a, ?X)"
        unfolding unf using ab
        by (simp add: sl fl None alb fun_upd_twist)
      then show ?thesis
        apply (intro exI [of _ ?X] exI [of _ ?Ma'] exI [of _ "b # ?L0"])
        using ab aL apply simp
        done
    next
      case (Some b')
      with llf have fb': "if_findmulti_loop (ifmas st) ll ?L0 = Inr (Some b')"
        by (simp add: if_findmulti_def)
      from if_findmulti_loop_Some_mem [OF fb'] obtain mb where
        bL': "b' \<in> set ?L0" and hb: "ifmas st b' = Some mb" by blast
      from bL' aL have ba: "b' \<noteq> a" by auto
      let ?Ma' = "?Ma\<lparr>ifma_llifma := Some b'\<rparr>"
      let ?X = "st\<lparr>ifmas := (ifmas st)
                       (a \<mapsto> ?Ma', b' \<mapsto> mb\<lparr>ifma_refcount := ifma_refcount mb + 1\<rparr>),
                 if_multiaddrs := (if_multiaddrs st)(p := a # ?L0),
                 drv_ioctls := drv_ioctls st @ [SIOCADDMULTI]\<rparr>"
      have "if_addmulti resolve (Some a, True, True) (Some b, True, True) p sa st
          = Inr (0, Some a, ?X)"
        unfolding unf using ba
        by (simp add: sl fl Some hb fun_upd_twist Let_def)
      then show ?thesis
        apply (intro exI [of _ ?X] exI [of _ ?Ma'] exI [of _ ?L0])
        using ba aL apply simp
        done
    qed
  qed
qed

text \<open>The example addresses.\<close>

lemma sa_ex_bytes: "length sa_ex = 16" "unat (sa_ex ! 0) = 16" "unat (sa_ex ! 1) = 2"
  "unat (sa_ex ! Suc 0) = 2"
  by (simp_all add: sa_ex_def)

lemma ll_ex_bytes: "length ll_ex = 54" "unat (ll_ex ! 0) = 54" "unat (ll_ex ! 1) = 18"
  "unat (ll_ex ! Suc 0) = 18"
  "unat (ll_ex ! 5) = 0" "unat (ll_ex ! 6) = 6"
  by (simp_all add: ll_ex_def)

lemma ll_ex2_bytes: "length ll_ex2 = 54" "unat (ll_ex2 ! 0) = 54" "unat (ll_ex2 ! 1) = 18"
  "unat (ll_ex2 ! Suc 0) = 18"
  "unat (ll_ex2 ! 5) = 0" "unat (ll_ex2 ! 6) = 6"
  by (simp_all add: ll_ex2_def)

lemma ll_ex_lladdr: "take 6 (drop 8 ll_ex) = take 6 (drop 8 ll_ex2)" "ll_ex \<noteq> ll_ex2"
  "take 16 ll_ex \<noteq> sa_ex"
  by (simp_all add: ll_ex_def ll_ex2_def sa_ex_def)

lemma sockaddr_ok_ex: "sockaddr_ok sa_ex" "sockaddr_ok ll_ex" "sockaddr_ok ll_ex2"
  by (simp_all add: sockaddr_ok_def sa_ex_bytes ll_ex_bytes ll_ex2_bytes AF_LINK_def)

lemma test_ex:
  "if_findmulti_test sa_ex ll_ex2 = Inr False"
  "if_findmulti_test ll_ex ll_ex2 = Inr True"
  "if_findmulti_test ll_ex sa_ex = Inr False"
  by (simp_all add: if_findmulti_test_def sa_dl_equal_def sa_equal_def sa_byte_def LLADDR_def
      bcmp_def sa_ex_bytes ll_ex_bytes ll_ex2_bytes AF_LINK_def ll_ex_lladdr)

lemma take_ex: "take 16 sa_ex = sa_ex" "take 54 ll_ex = ll_ex"
  by (simp_all add: sa_ex_bytes ll_ex_bytes)

lemma first_join_ex:
  "if_addmulti resolve_ex (Some 10, True, True) (Some 11, True, True) 1 sa_ex mstate0
     = Inr (0, Some 10,
         \<lparr>if_multiaddrs = (\<lambda>p. [])(1 := [10, 11]),
          ifmas = [11 \<mapsto> \<lparr>ifma_addr = ll_ex, ifma_lladdr = None, ifma_ifp = Some 1,
                           ifma_refcount = 1, ifma_llifma = None\<rparr>,
                   10 \<mapsto> \<lparr>ifma_addr = sa_ex, ifma_lladdr = Some ll_ex, ifma_ifp = Some 1,
                           ifma_refcount = 1, ifma_llifma = Some 11\<rparr>],
          drv_ioctls = [SIOCADDMULTI]\<rparr>)"
  by (simp add: if_addmulti_def if_findmulti_def mstate0_def resolve_ex_def if_allocmulti_def
      sa_byte_def sa_ex_bytes ll_ex_bytes EOPNOTSUPP_def take_ex)

text \<open>
  C2. A join of an address for which the first membership on the list that compares
  equal, by the test of \<^verbatim>\<open>if_findmulti\<close>, is \<open>x\<close> returns 0 and \<open>x\<close>, and the only
  change is that \<open>x\<close> counts one reference more. From a state where no membership on
  the list compares equal to the well-formed address \<open>sa\<close>, with a resolver that
  succeeds with a well-formed link-layer address or does not support the request, and
  with memory for the allocations: the first join allocates the membership \<open>a\<close> with a
  copy of \<open>sa\<close> and one reference and sends \<^verbatim>\<open>SIOCADDMULTI\<close> to the driver; \<open>n\<close> joins
  return 0 each and leave \<open>a\<close> with \<open>n\<close> references; \<^verbatim>\<open>if_delmulti_locked\<close> returns 0
  while more than one reference is held and 1 on the last one; the first \<open>k < n\<close>
  leaves return 0 each, bring the count to \<open>n - k\<close> and send nothing to the driver;
  the \<open>n\<close>-th leave sends the one \<^verbatim>\<open>SIOCDELMULTI\<close>, and after it \<open>a\<close> is on no list
  and freed.
\<close>

theorem multicast_joins_then_leaves:
  assumes absent: "\<forall>x\<in>set (if_multiaddrs st p). \<exists>m. ifmas st x = Some m
      \<and> if_findmulti_test (ifma_addr m) sa = Inr False"
    and ok: "sockaddr_ok sa"
    and res: "resolve sa = (e, llsa)" and eok: "e = 0 \<or> e = EOPNOTSUPP"
    and llok: "\<forall>ll. e = 0 \<and> llsa = Some ll \<longrightarrow>
      sockaddr_ok ll \<and> (\<exists>r. if_findmulti st p ll = Inr r)"
    and fa: "a \<notin> dom (ifmas st)" and fb: "b \<notin> dom (ifmas st)" and ab: "a \<noteq> b"
    and n: "0 < n"
  shows "(\<forall>s x m pre post r m1 m2.
       if_multiaddrs s p' = pre @ x # post
       \<and> (\<forall>y\<in>set pre. \<exists>my. ifmas s y = Some my
             \<and> if_findmulti_test (ifma_addr my) sa' = Inr False)
       \<and> ifmas s x = Some m \<and> if_findmulti_test (ifma_addr m) sa' = Inr True
       \<longrightarrow> if_findmulti s p' sa' = Inr (Some x)
         \<and> if_addmulti r m1 m2 p' sa' s
            = Inr (0, Some x,
                s\<lparr>ifmas := (ifmas s)(x \<mapsto> m\<lparr>ifma_refcount := ifma_refcount m + 1\<rparr>)\<rparr>))
  \<and> if_findmulti st p sa = Inr None
  \<and> (\<exists>st1 st'.
      if_addmulti resolve (Some a, True, True) (Some b, True, True) p sa st
        = Inr (0, Some a, st1)
    \<and> drv_ioctls st1 = drv_ioctls st @ [SIOCADDMULTI]
    \<and> with_refcount a 1 st1 = st1
    \<and> (\<forall>c. \<exists>m. ifmas (with_refcount a c st1) a = Some m \<and> ifma_refcount m = c
            \<and> ifma_addr m = take (unat (sa ! 0)) sa)
    \<and> (\<forall>c. if_findmulti (with_refcount a c st1) p sa = Inr (Some a))
    \<and> (\<forall>c r m1 m2. if_addmulti r m1 m2 p sa (with_refcount a c st1)
          = Inr (0, Some a, with_refcount a (c + 1) st1))
    \<and> joins resolve (Some a, True, True) (Some b, True, True) p sa n st
          = Inr (replicate n 0, with_refcount a (int n) st1)
    \<and> (\<forall>c>1. if_delmulti_locked a False (with_refcount a c st1)
          = Inr (0, with_refcount a (c - 1) st1))
    \<and> (\<exists>s'. if_delmulti_locked a False (with_refcount a 1 st1) = Inr (1, s'))
    \<and> (\<forall>k<n. leaves p sa k (with_refcount a (int n) st1)
          = Inr (replicate k 0, with_refcount a (int n - int k) st1)
        \<and> drv_ioctls (with_refcount a (int n - int k) st1) = drv_ioctls st @ [SIOCADDMULTI])
    \<and> leaves p sa n (with_refcount a (int n) st1) = Inr (replicate n 0, st')
    \<and> drv_ioctls st' = drv_ioctls st @ [SIOCADDMULTI, SIOCDELMULTI]
    \<and> a \<notin> dom (ifmas st') \<and> a \<notin> set (if_multiaddrs st' p))"
proof -
  from if_addmulti_first [where resolve = resolve, OF absent ok res eok llok fa fb ab]
  obtain st1 m L where
    j1: "if_addmulti resolve (Some a, True, True) (Some b, True, True) p sa st
        = Inr (0, Some a, st1)"
    and hd: "if_multiaddrs st1 p = a # L" and aL: "a \<notin> set L"
    and ha: "ifmas st1 a = Some m" and ad0: "ifma_addr m = take (unat (sa ! 0)) sa"
    and rc: "ifma_refcount m = 1" and ip: "ifma_ifp m = Some p"
    and io: "drv_ioctls st1 = drv_ioctls st @ [SIOCADDMULTI]"
    and ll: "ifma_llifma m = None
         \<or> (\<exists>b' mb. ifma_llifma m = Some b' \<and> b' \<noteq> a \<and> ifmas st1 b' = Some mb)"
    by blast
  have ad: "if_findmulti_test (ifma_addr m) sa = Inr True"
    unfolding ad0 by (rule if_findmulti_test_copy [OF ok])
  have nf: "if_findmulti st p sa = Inr None"
    unfolding if_findmulti_def if_findmulti_loop_None_iff by (rule absent)
  have one: "with_refcount a 1 st1 = st1" by (rule with_refcount_same [OF ha rc])
  from if_delmulti_last [OF hd ha ad rc ip aL ll] obtain s' st' where
    l1: "if_delmulti_locked a False st1 = Inr (1, s')"
    and d1: "if_delmulti p sa st1 = Inr (0, st')"
    and io': "drv_ioctls st' = drv_ioctls st1 @ [SIOCDELMULTI]"
    and gone: "a \<notin> dom (ifmas st')" "a \<notin> set (if_multiaddrs st' p)"
    by blast
  have cnt: "\<exists>m'. ifmas (with_refcount a c st1) a = Some m' \<and> ifma_refcount m' = c
      \<and> ifma_addr m' = take (unat (sa ! 0)) sa" for c
    by (simp add: with_refcount_eq [OF ha] ad0)
  have wio: "drv_ioctls (with_refcount a c st1) = drv_ioctls st1" for c
    by (simp add: with_refcount_eq [OF ha])
  from n obtain j where nj: "n = Suc j" by (cases n) auto
  have jn: "joins resolve (Some a, True, True) (Some b, True, True) p sa n st
      = Inr (replicate n 0, with_refcount a (int n) st1)"
    using joins_present [OF hd ha ad, of resolve "(None, False, False)" "(None, False, False)" j 1]
    by (simp add: nj j1 one add.commute)
  have lk: "leaves p sa k (with_refcount a (int n) st1)
      = Inr (replicate k 0, with_refcount a (int n - int k) st1)" if "k < n" for k
    using that by (intro leaves_not_last [OF hd ha ad]) simp
  have "int n - int j = 1" by (simp add: nj)
  with lk [of j] have "leaves p sa j (with_refcount a (int n) st1) = Inr (replicate j 0, st1)"
    by (simp add: nj one)
  from leaves_Suc [OF this d1]
  have ln: "leaves p sa n (with_refcount a (int n) st1) = Inr (replicate n 0, st')"
    by (simp add: nj replicate_append_same)
  have gen: "if_findmulti s p' sa' = Inr (Some x)
         \<and> if_addmulti r m1 m2 p' sa' s
            = Inr (0, Some x,
                s\<lparr>ifmas := (ifmas s)(x \<mapsto> m\<lparr>ifma_refcount := ifma_refcount m + 1\<rparr>)\<rparr>)"
    if "if_multiaddrs s p' = pre @ x # post
       \<and> (\<forall>y\<in>set pre. \<exists>my. ifmas s y = Some my
             \<and> if_findmulti_test (ifma_addr my) sa' = Inr False)
       \<and> ifmas s x = Some m \<and> if_findmulti_test (ifma_addr m) sa' = Inr True"
    for s x m pre post r m1 m2
    using that if_addmulti_existing [of pre s sa' p' x post m] by blast
  show ?thesis
    apply (rule conjI)
     apply (intro allI impI)
     apply (erule gen)
    apply (rule conjI)
     apply (rule nf)
    apply (rule exI [of _ st1], rule exI [of _ st'])
    apply (intro conjI allI impI)
                 apply (rule j1)
                apply (rule io)
               apply (rule one)
              apply (rule cnt)
             apply (rule if_findmulti_head [OF hd ha ad])
            apply (rule if_addmulti_present [OF hd ha ad])
           apply (rule jn)
          apply (erule if_delmulti_not_last(1) [OF hd ha ad])
         apply (simp add: one l1)
        apply (erule lk)
       apply (simp add: wio io)
      apply (rule ln)
     apply (simp add: io' io)
    apply (rule gone)+
    done
qed

text \<open>
  Three joins of a group address that resolves to a link-layer address, a fourth join,
  three leaves, and a join of the link-layer address with another interface index in
  its header: it differs from the address of the link-layer membership, and compares
  equal to it.
\<close>

theorem multicast_joins_then_leaves_witness:
  "sockaddr_ok sa_ex \<and> resolve_ex sa_ex = (0, Some ll_ex) \<and> sockaddr_ok ll_ex
   \<and> if_findmulti mstate0 1 ll_ex = Inr None
   \<and> 10 \<notin> dom (ifmas mstate0) \<and> 11 \<notin> dom (ifmas mstate0)
   \<and> if_findmulti mstate0 1 sa_ex = Inr None
   \<and> (\<exists>st1 st3 st'.
      if_addmulti resolve_ex (Some 10, True, True) (Some 11, True, True) 1 sa_ex mstate0
        = Inr (0, Some 10, st1)
    \<and> if_multiaddrs st1 1 = [10, 11]
    \<and> drv_ioctls st1 = [SIOCADDMULTI]
    \<and> joins resolve_ex (Some 10, True, True) (Some 11, True, True) 1 sa_ex 3 mstate0
        = Inr ([0, 0, 0], st3)
    \<and> (\<exists>m. ifmas st3 10 = Some m \<and> ifma_refcount m = 3 \<and> ifma_addr m = sa_ex)
    \<and> (\<exists>s2. leaves 1 sa_ex 2 st3 = Inr ([0, 0], s2) \<and> drv_ioctls s2 = [SIOCADDMULTI])
    \<and> leaves 1 sa_ex 3 st3 = Inr ([0, 0, 0], st')
    \<and> drv_ioctls st' = [SIOCADDMULTI, SIOCDELMULTI]
    \<and> 10 \<notin> dom (ifmas st') \<and> 10 \<notin> set (if_multiaddrs st' 1)
    \<and> if_findmulti st3 1 sa_ex = Inr (Some 10)
    \<and> if_addmulti resolve_ex (None, False, False) (None, False, False) 1 sa_ex st3
        = Inr (0, Some 10, with_refcount 10 4 st1)
    \<and> ll_ex \<noteq> ll_ex2
    \<and> if_findmulti st3 1 ll_ex2 = Inr (Some 11)
    \<and> (\<exists>mb. ifmas st3 11 = Some mb \<and> ifma_addr mb = ll_ex
          \<and> if_addmulti resolve_ex (None, False, False) (None, False, False) 1 ll_ex2 st3
            = Inr (0, Some 11,
                st3\<lparr>ifmas := (ifmas st3)
                  (11 \<mapsto> mb\<lparr>ifma_refcount := ifma_refcount mb + 1\<rparr>)\<rparr>)))"
proof -
  have e0: "if_findmulti mstate0 1 ll_ex = Inr None" "if_multiaddrs mstate0 1 = []"
    "drv_ioctls mstate0 = []"
    by (simp_all add: if_findmulti_def mstate0_def)
  have h: "\<forall>x\<in>set (if_multiaddrs mstate0 1). \<exists>m. ifmas mstate0 x = Some m
      \<and> if_findmulti_test (ifma_addr m) sa_ex = Inr False"
    "sockaddr_ok sa_ex" "resolve_ex sa_ex = (0, Some ll_ex)"
    "(0::int) = 0 \<or> (0::int) = EOPNOTSUPP"
    "\<forall>ll. (0::int) = 0 \<and> Some ll_ex = Some ll \<longrightarrow>
      sockaddr_ok ll \<and> (\<exists>r. if_findmulti mstate0 1 ll = Inr r)"
    "10 \<notin> dom (ifmas mstate0)" "11 \<notin> dom (ifmas mstate0)" "(10::nat) \<noteq> 11" "0 < (3::nat)"
    using e0 by (simp_all add: sockaddr_ok_ex resolve_ex_def) (simp_all add: mstate0_def)
  note t = multicast_joins_then_leaves
    [where resolve = resolve_ex and p' = 1 and sa' = ll_ex2, OF h]
  let ?ST1 = "\<lparr>if_multiaddrs = (\<lambda>p. [])(1 := [10, 11]),
          ifmas = [11 \<mapsto> \<lparr>ifma_addr = ll_ex, ifma_lladdr = None, ifma_ifp = Some 1,
                           ifma_refcount = 1, ifma_llifma = None\<rparr>,
                   10 \<mapsto> \<lparr>ifma_addr = sa_ex, ifma_lladdr = Some ll_ex, ifma_ifp = Some 1,
                           ifma_refcount = 1, ifma_llifma = Some 11\<rparr>],
          drv_ioctls = [SIOCADDMULTI]\<rparr>"
  from t obtain st1 st' where
    r: "if_addmulti resolve_ex (Some 10, True, True) (Some 11, True, True) 1 sa_ex mstate0
          = Inr (0, Some 10, st1)"
      "drv_ioctls st1 = drv_ioctls mstate0 @ [SIOCADDMULTI]"
      "\<forall>c. \<exists>m. ifmas (with_refcount 10 c st1) 10 = Some m \<and> ifma_refcount m = c
          \<and> ifma_addr m = take (unat (sa_ex ! 0)) sa_ex"
      "joins resolve_ex (Some 10, True, True) (Some 11, True, True) 1 sa_ex 3 mstate0
         = Inr (replicate 3 0, with_refcount 10 (int 3) st1)"
      "\<forall>k<3. leaves 1 sa_ex k (with_refcount 10 (int 3) st1)
          = Inr (replicate k 0, with_refcount 10 (int 3 - int k) st1)
        \<and> drv_ioctls (with_refcount 10 (int 3 - int k) st1) = drv_ioctls mstate0 @ [SIOCADDMULTI]"
      "leaves 1 sa_ex 3 (with_refcount 10 (int 3) st1) = Inr (replicate 3 0, st')"
      "drv_ioctls st' = drv_ioctls mstate0 @ [SIOCADDMULTI, SIOCDELMULTI]"
      "10 \<notin> dom (ifmas st')" "10 \<notin> set (if_multiaddrs st' 1)"
      "\<forall>c. if_findmulti (with_refcount 10 c st1) 1 sa_ex = Inr (Some 10)"
      "\<forall>c r m1 m2. if_addmulti r m1 m2 1 sa_ex (with_refcount 10 c st1)
          = Inr (0, Some 10, with_refcount 10 (c + 1) st1)"
    by blast
  from t have nf: "if_findmulti mstate0 1 sa_ex = Inr None" by blast
  from r(1) first_join_ex have st1: "st1 = ?ST1" by simp
  let ?st3 = "with_refcount 10 (int 3) st1"
  let ?Mb = "\<lparr>ifma_addr = ll_ex, ifma_lladdr = None, ifma_ifp = Some 1,
                           ifma_refcount = 1, ifma_llifma = None\<rparr>"
  let ?Ma = "\<lparr>ifma_addr = sa_ex, ifma_lladdr = Some ll_ex, ifma_ifp = Some 1,
                           ifma_refcount = 3, ifma_llifma = Some 11\<rparr>"
  have s3: "if_multiaddrs ?st3 1 = [] @ 10 # [11]" "if_multiaddrs ?st3 1 = [10] @ 11 # []"
    "ifmas ?st3 11 = Some ?Mb" "ifmas ?st3 10 = Some ?Ma" "if_multiaddrs st1 1 = [10, 11]"
    by (simp_all add: st1 with_refcount_def)
  have g: "if_multiaddrs ?st3 1 = [10] @ 11 # []
       \<and> (\<forall>y\<in>set [10]. \<exists>my. ifmas ?st3 y = Some my
             \<and> if_findmulti_test (ifma_addr my) ll_ex2 = Inr False)
       \<and> ifmas ?st3 11 = Some ?Mb \<and> if_findmulti_test (ifma_addr ?Mb) ll_ex2 = Inr True"
    using s3 by (simp add: test_ex)
  from t [THEN conjunct1, rule_format, OF g,
      of resolve_ex "(None, False, False)" "(None, False, False)"]
  have v: "if_findmulti ?st3 1 ll_ex2 = Inr (Some 11)"
    "if_addmulti resolve_ex (None, False, False) (None, False, False) 1 ll_ex2 ?st3
       = Inr (0, Some 11,
           ?st3\<lparr>ifmas := (ifmas ?st3)(11 \<mapsto> ?Mb\<lparr>ifma_refcount := ifma_refcount ?Mb + 1\<rparr>)\<rparr>)"
    by blast+
  have z: "drv_ioctls mstate0 = []" by (simp add: mstate0_def)
  have r3: "replicate 3 (0::int) = [0, 0, 0]" "replicate 2 (0::int) = [0, 0]"
    by (simp_all add: numeral_3_eq_3 numeral_2_eq_2)
  have "(2::nat) < 3" by simp
  with r(5) have l2: "leaves 1 sa_ex 2 ?st3
          = Inr (replicate 2 0, with_refcount 10 (int 3 - int 2) st1)
        \<and> drv_ioctls (with_refcount 10 (int 3 - int 2) st1) = drv_ioctls mstate0 @ [SIOCADDMULTI]"
    by blast
  from r(3) obtain m3 where m3: "ifmas ?st3 10 = Some m3" "ifma_refcount m3 = int 3"
    "ifma_addr m3 = take (unat (sa_ex ! 0)) sa_ex" by blast
  have j4: "if_addmulti resolve_ex (None, False, False) (None, False, False) 1 sa_ex ?st3
        = Inr (0, Some 10, with_refcount 10 4 st1)"
    using r(11) [rule_format, of resolve_ex "(None, False, False)" "(None, False, False)" "int 3"]
    by simp
  have c: "sockaddr_ok sa_ex \<and> resolve_ex sa_ex = (0, Some ll_ex) \<and> sockaddr_ok ll_ex
   \<and> if_findmulti mstate0 1 ll_ex = Inr None
   \<and> 10 \<notin> dom (ifmas mstate0) \<and> 11 \<notin> dom (ifmas mstate0)
   \<and> if_findmulti mstate0 1 sa_ex = Inr None"
    using h(2,3,6,7) nf e0(1) by (simp add: sockaddr_ok_ex)
  show ?thesis
    apply (rule conjI [OF c [THEN conjunct1]])
    apply (intro conjI c [THEN conjunct2, THEN conjunct1]
        c [THEN conjunct2, THEN conjunct2, THEN conjunct1]
        c [THEN conjunct2, THEN conjunct2, THEN conjunct2, THEN conjunct1]
        c [THEN conjunct2, THEN conjunct2, THEN conjunct2, THEN conjunct2, THEN conjunct1]
        c [THEN conjunct2, THEN conjunct2, THEN conjunct2, THEN conjunct2, THEN conjunct2,
           THEN conjunct1]
        c [THEN conjunct2, THEN conjunct2, THEN conjunct2, THEN conjunct2, THEN conjunct2,
           THEN conjunct2])
    apply (rule exI [of _ st1], rule exI [of _ ?st3], rule exI [of _ st'])
    using r(1,2,4,6,7,8,9) l2 m3 s3 v j4 r(10) [rule_format, of "int 3"]
    apply (simp add: z r3 sa_ex_bytes take_ex ll_ex_lladdr)
    done
qed

end
